theory Spec2Isabelle
  imports Main
begin

section \<open>JavaScript strings\<close>

text \<open>
  Strings are character lists. The source uses \<^verbatim>\<open>startsWith\<close>, \<^verbatim>\<open>endsWith\<close>,
  \<^verbatim>\<open>includes\<close>, \<^verbatim>\<open>lastIndexOf\<close>, \<^verbatim>\<open>slice\<close> and \<^verbatim>\<open>replace\<close>; each is written out
  with the behaviour JavaScript gives it, including the index \<open>-1\<close> that
  \<^verbatim>\<open>lastIndexOf\<close> returns when nothing is found and the meaning \<^verbatim>\<open>slice\<close> gives
  to a negative start.
\<close>

definition startsWith :: "string \<Rightarrow> string \<Rightarrow> bool" where
  "startsWith s p = (take (length p) s = p)"

definition endsWith :: "string \<Rightarrow> string \<Rightarrow> bool" where
  "endsWith s p = (length p \<le> length s \<and> drop (length s - length p) s = p)"

fun splitAtFirst :: "string \<Rightarrow> string \<Rightarrow> (string \<times> string) option" where
  "splitAtFirst p [] = (if p = [] then Some ([], []) else None)"
| "splitAtFirst p (c # cs) =
     (if startsWith (c # cs) p then Some ([], drop (length p) (c # cs))
      else (case splitAtFirst p cs of
              None \<Rightarrow> None
            | Some (front, back) \<Rightarrow> Some (c # front, back)))"

definition includes_str :: "string \<Rightarrow> string \<Rightarrow> bool" where
  "includes_str s p = (splitAtFirst p s \<noteq> None)"

definition lastIndexOf :: "string \<Rightarrow> char \<Rightarrow> int" where
  "lastIndexOf s c =
     (if c \<in> set s then int (length s) - 1 - int (length (takeWhile (\<lambda>x. x \<noteq> c) (rev s)))
      else - 1)"

definition slice :: "string \<Rightarrow> int \<Rightarrow> string" where
  "slice s start =
     (if start < 0 then drop (nat (max (int (length s) + start) 0)) s
      else drop (nat start) s)"

text \<open>
  \<^verbatim>\<open>String.prototype.replace\<close> with a string pattern replaces the first occurrence
  only, and reads \<^verbatim>\<open>$$\<close>, \<^verbatim>\<open>$&\<close>, \<^verbatim>\<open>$`\<close> and \<^verbatim>\<open>$'\<close> in the replacement as
  patterns.
\<close>

fun getSubstitution :: "string \<Rightarrow> string \<Rightarrow> string \<Rightarrow> string \<Rightarrow> string" where
  "getSubstitution matched front back [] = []"
| "getSubstitution matched front back [c] = [c]"
| "getSubstitution matched front back (c # d # r) =
     (if c = CHR ''$'' \<and> d = CHR ''$'' then CHR ''$'' # getSubstitution matched front back r
      else if c = CHR ''$'' \<and> d = CHR ''&'' then matched @ getSubstitution matched front back r
      else if c = CHR ''$'' \<and> d = CHR 0x60 then front @ getSubstitution matched front back r
      else if c = CHR ''$'' \<and> d = CHR 0x27 then back @ getSubstitution matched front back r
      else c # getSubstitution matched front back (d # r))"

definition replace :: "string \<Rightarrow> string \<Rightarrow> string \<Rightarrow> string" where
  "replace s p r =
     (case splitAtFirst p s of
        None \<Rightarrow> s
      | Some (front, back) \<Rightarrow> front @ getSubstitution p front back r @ back)"

section \<open>Node's path module (POSIX)\<close>

fun splitOn :: "char \<Rightarrow> string \<Rightarrow> string list" where
  "splitOn c [] = [[]]"
| "splitOn c (x # xs) =
     (if x = c then [] # splitOn c xs
      else (case splitOn c xs of
              [] \<Rightarrow> [[x]]
            | w # ws \<Rightarrow> (x # w) # ws))"

fun joinWith :: "char \<Rightarrow> string list \<Rightarrow> string" where
  "joinWith c [] = []"
| "joinWith c [w] = w"
| "joinWith c (w # v # ws) = w @ c # joinWith c (v # ws)"

text \<open>
  \<^verbatim>\<open>normalizeString\<close>: empty segments and \<^verbatim>\<open>.\<close> are dropped, \<^verbatim>\<open>..\<close> removes the
  segment before it; above the root it is dropped for an absolute path and kept
  for a relative one. The stack holds the segments kept so far, last first.
\<close>

fun normalizeString :: "bool \<Rightarrow> string list \<Rightarrow> string list \<Rightarrow> string list" where
  "normalizeString allowAboveRoot stack [] = rev stack"
| "normalizeString allowAboveRoot stack (seg # segs) =
     (if seg = [] \<or> seg = ''.'' then normalizeString allowAboveRoot stack segs
      else if seg = ''..'' then
        (case stack of
           lastSeg # below \<Rightarrow>
             if lastSeg \<noteq> ''..'' then normalizeString allowAboveRoot below segs
             else if allowAboveRoot then normalizeString allowAboveRoot (seg # stack) segs
             else normalizeString allowAboveRoot stack segs
         | [] \<Rightarrow>
             if allowAboveRoot then normalizeString allowAboveRoot (seg # stack) segs
             else normalizeString allowAboveRoot stack segs)
      else normalizeString allowAboveRoot (seg # stack) segs)"

text \<open>
  \<^verbatim>\<open>path.resolve\<close> reads its arguments from the right, and the working directory
  after them, until the path built so far is absolute.
\<close>

fun resolveJoin :: "string list \<Rightarrow> string \<Rightarrow> string \<times> bool" where
  "resolveJoin [] resolvedPath = (resolvedPath, False)"
| "resolveJoin (p # ps) resolvedPath =
     (if p = [] then resolveJoin ps resolvedPath
      else if hd p = CHR ''/'' then (p @ CHR ''/'' # resolvedPath, True)
      else resolveJoin ps (p @ CHR ''/'' # resolvedPath))"

definition resolve :: "string \<Rightarrow> string list \<Rightarrow> string" where
  "resolve cwd args =
     (case resolveJoin (rev args @ [cwd]) [] of
        (resolvedPath, resolvedAbsolute) \<Rightarrow>
          (let segs = normalizeString (\<not> resolvedAbsolute) [] (splitOn CHR ''/'' resolvedPath)
           in if resolvedAbsolute then CHR ''/'' # joinWith CHR ''/'' segs
              else if segs = [] then ''.'' else joinWith CHR ''/'' segs))"

text \<open>\<^verbatim>\<open>path.dirname\<close>: the loop runs from the last index down to index 1.\<close>

fun dirnameLoop :: "string \<Rightarrow> nat \<Rightarrow> bool \<Rightarrow> nat option" where
  "dirnameLoop path 0 matchedSlash = None"
| "dirnameLoop path (Suc i) matchedSlash =
     (if path ! Suc i = CHR ''/'' then
        (if \<not> matchedSlash then Some (Suc i) else dirnameLoop path i matchedSlash)
      else dirnameLoop path i False)"

definition dirname :: "string \<Rightarrow> string" where
  "dirname path =
     (if path = [] then ''.''
      else (case dirnameLoop path (length path - 1) True of
              None \<Rightarrow> if hd path = CHR ''/'' then ''/'' else ''.''
            | Some e \<Rightarrow> if hd path = CHR ''/'' \<and> e = 1 then ''//'' else take e path))"

section \<open>Errors, objects and the file system\<close>

text \<open>
  A thrown JavaScript value. Node's file-system errors carry a \<^verbatim>\<open>code\<close>
  (\<^verbatim>\<open>ENOENT\<close>, \<^verbatim>\<open>EACCES\<close>, ...); an \<^verbatim>\<open>Error\<close> made by \<^verbatim>\<open>new Error(message)\<close> and
  the parser's syntax error and the traversal's type error have none. A function that
  can throw returns \<open>error + 'a\<close>, with \<open>Inl\<close> for the throw (for an \<^verbatim>\<open>async\<close>
  function: the rejection).
\<close>

datatype error = SystemError string | SyntaxError string | TypeError string | Error string

fun code :: "error \<Rightarrow> string option" where
  "code (SystemError c) = Some c"
| "code (SyntaxError m) = None"
| "code (TypeError m) = None"
| "code (Error m) = None"

text \<open>
  A plain object used as a dictionary is the list of its own entries in iteration
  order. JavaScript iterates the keys that are array indices first, in ascending
  numeric order, and then the other keys in the order of their first insertion; a
  value given to an existing key keeps the key's place. An array index is a decimal
  numeral without a leading zero, below \<open>2\<^sup>3\<^sup>2 - 1\<close>.
\<close>

definition isDigit :: "char \<Rightarrow> bool" where
  "isDigit c = (c \<in> set ''0123456789'')"

definition indexValue :: "string \<Rightarrow> int" where
  "indexValue k = foldl (\<lambda>n c. 10 * n + (of_char c - 48)) 0 k"

definition isArrayIndex :: "string \<Rightarrow> bool" where
  "isArrayIndex k =
     (k \<noteq> [] \<and> list_all isDigit k \<and> (k = ''0'' \<or> hd k \<noteq> CHR ''0'') \<and>
      indexValue k < 4294967295)"

fun updateKey :: "string \<Rightarrow> 'v \<Rightarrow> (string \<times> 'v) list \<Rightarrow> (string \<times> 'v) list" where
  "updateKey k v [] = []"
| "updateKey k v ((k', v') # kvs) =
     (if k' = k then (k, v) # kvs else (k', v') # updateKey k v kvs)"

fun insertIndex :: "string \<Rightarrow> 'v \<Rightarrow> (string \<times> 'v) list \<Rightarrow> (string \<times> 'v) list" where
  "insertIndex k v [] = [(k, v)]"
| "insertIndex k v ((k', v') # kvs) =
     (if isArrayIndex k' \<and> indexValue k' < indexValue k then (k', v') # insertIndex k v kvs
      else (k, v) # (k', v') # kvs)"

text \<open>
  \<open>objSet\<close> defines an own property, as an object literal and the spread do.
  \<open>objAssign\<close> is the assignment \<^verbatim>\<open>obj[key] = value\<close> of an object to a key: for the key
  \<^verbatim>\<open>__proto__\<close> it sets the prototype of \<^verbatim>\<open>obj\<close> and leaves its own entries as they
  were.
\<close>

definition objSet :: "string \<Rightarrow> 'v \<Rightarrow> (string \<times> 'v) list \<Rightarrow> (string \<times> 'v) list" where
  "objSet k v obj =
     (if k \<in> fst ` set obj then updateKey k v obj
      else if isArrayIndex k then insertIndex k v obj
      else obj @ [(k, v)])"

definition objAssign :: "string \<Rightarrow> 'v \<Rightarrow> (string \<times> 'v) list \<Rightarrow> (string \<times> 'v) list" where
  "objAssign k v obj = (if k = ''__proto__'' then obj else objSet k v obj)"

definition objSpread :: "(string \<times> 'v) list \<Rightarrow> (string \<times> 'v) list \<Rightarrow> (string \<times> 'v) list" where
  "objSpread obj src = fold (\<lambda>(k, v). objSet k v) src obj"

text \<open>
  The file system and the parser are the program's environment. Each field is one
  call the source makes, with the result the call can have: nothing is assumed about
  how the calls relate, so a theorem holds for every file system.
  \<^verbatim>\<open>parse\<close> stands for \<^verbatim>\<open>@babel/parser\<close> with the fixed plugin list. Of the tree it
  returns, two things matter to the program: the import declarations in the order
  \<^verbatim>\<open>@babel/traverse\<close> visits them (the three visitors read nothing else), and whether
  the traversal of this tree throws. \<^verbatim>\<open>@babel/traverse\<close> builds the scopes of the program
  before it visits a node, and throws a \<^verbatim>\<open>TypeError\<close> (\<^verbatim>\<open>Duplicate declaration\<close>) for a
  tree that binds a name twice in a way its scope rules refuse, which the parser lets
  through for some trees; \<open>scopeError\<close> is that error, when there is one.
  The paths are POSIX paths, as the source's own search for \<^verbatim>\<open>/\<close> has them.
\<close>

datatype stats = Directory | RegularFile | SymbolicLink | OtherFile

datatype importKind = ValueImport | TypeImport

datatype specifier =
    ImportNamespaceSpecifier (local: string)
  | ImportDefaultSpecifier (local: string)
  | ImportSpecifier (local: string) (imported: "string option")

record importDeclaration =
  decl_source :: string
  decl_importKind :: "importKind option"
  specifiers :: "specifier list"

record syntaxTree =
  importDeclarations :: "importDeclaration list"
  scopeError :: "error option"

record env =
  cwd :: string
  lstatSync :: "string \<Rightarrow> error + stats"
  readdirSync :: "string \<Rightarrow> error + string list"
  readFileSync :: "string \<Rightarrow> error + string"
  access :: "string \<Rightarrow> error + unit"
  existsSync :: "string \<Rightarrow> bool"
  parse :: "string \<Rightarrow> error + syntaxTree"

section \<open>File helpers\<close>

definition defaultExtensions :: "string list" where
  "defaultExtensions = [''.js'', ''.jsx'', ''.ts'', ''.tsx'', ''.json'', ''txt'']"

text \<open>
  Both probing loops compute the candidate the same way: the base path as it is when
  it contains the extension anywhere, the base path with the extension appended
  otherwise.
\<close>

definition candidatePath :: "string \<Rightarrow> string \<Rightarrow> string" where
  "candidatePath baseFilePath ext =
     (if includes_str baseFilePath ext then baseFilePath else baseFilePath @ ext)"

fun readFileWithExtensions :: "env \<Rightarrow> string \<Rightarrow> string list \<Rightarrow> error + string" where
  "readFileWithExtensions E baseFilePath [] =
     Inl (Error (''No file found with the given extensions.('' @ baseFilePath @ '')''))"
| "readFileWithExtensions E baseFilePath (ext # extensions) =
     (let filePath = candidatePath baseFilePath ext
      in case readFileSync E filePath of
           Inr content \<Rightarrow> Inr content
         | Inl err \<Rightarrow>
             if code err \<noteq> Some ''ENOENT'' then Inl err
             else readFileWithExtensions E baseFilePath extensions)"

fun existFileWithExtensions :: "env \<Rightarrow> string \<Rightarrow> string list \<Rightarrow> error + string" where
  "existFileWithExtensions E baseFilePath [] = Inr []"
| "existFileWithExtensions E baseFilePath (ext # extensions) =
     (let filePath = candidatePath baseFilePath ext
      in case access E filePath of
           Inr u \<Rightarrow> Inr filePath
         | Inl err \<Rightarrow>
             if code err \<noteq> Some ''ENOENT'' then Inl err
             else existFileWithExtensions E baseFilePath extensions)"

definition isDirectory :: "env \<Rightarrow> string \<Rightarrow> bool" where
  "isDirectory E p = (case lstatSync E p of Inr st \<Rightarrow> st = Directory | Inl err \<Rightarrow> False)"

definition isRelative :: "string \<Rightarrow> bool" where
  "isRelative p = (startsWith p ''.'' \<or> startsWith p ''..'')"

definition readRelativeImportFile :: "env \<Rightarrow> string \<Rightarrow> string \<Rightarrow> error + string" where
  "readRelativeImportFile E sourceFilePath importPath =
     (if \<not> isRelative importPath then Inl (Error ''Import path is not a relative path.'')
      else readFileWithExtensions E (resolve (cwd E) [dirname sourceFilePath, importPath])
             [''.js'', ''.jsx'', ''.ts'', ''.tsx'', ''.json''])"

text \<open>
  \<^verbatim>\<open>getRealImportFilePath\<close>, in the steps of its body: the path computed from the
  specifier (the three-way branch with the alias loop), the directory rule, and the
  probe of the path that results.
\<close>

definition enableAlias :: "(string \<times> string) list option \<Rightarrow> (string \<times> string) list" where
  "enableAlias importAlias =
     objSpread [(''@/'', ''src/'')] (case importAlias of None \<Rightarrow> [] | Some a \<Rightarrow> a)"

definition specifierPath ::
  "env \<Rightarrow> string \<Rightarrow> string \<Rightarrow> string \<Rightarrow> (string \<times> string) list option \<Rightarrow> string" where
  "specifierPath E rootDir fileDir importPath importAlias =
     (if includes_str fileDir ''config/config'' \<and> \<not> startsWith importPath ''@''
        then resolve (cwd E) [rootDir, ''src/pages'', importPath]
      else if isRelative importPath
        then resolve (cwd E) [fileDir, ''..'', importPath]
      else fold
             (\<lambda>(alias, target) realPath.
                if startsWith importPath alias
                then resolve (cwd E) [rootDir, replace importPath alias target]
                else realPath)
             (enableAlias importAlias)
             (if startsWith importPath ''src''
              then resolve (cwd E) [rootDir, importPath]
              else resolve (cwd E) [rootDir, ''src'', importPath]))"

definition probePath ::
  "env \<Rightarrow> string \<Rightarrow> string \<Rightarrow> string \<Rightarrow> (string \<times> string) list option \<Rightarrow> string" where
  "probePath E rootDir fileDir importPath importAlias =
     (let realPath = specifierPath E rootDir fileDir importPath importAlias;
          realPath = (if isDirectory E realPath
                      then resolve (cwd E) [realPath, ''index'']
                      else realPath)
      in resolve (cwd E) [realPath])"

definition getRealImportFilePath ::
  "env \<Rightarrow> string \<Rightarrow> string \<Rightarrow> string \<Rightarrow> (string \<times> string) list option \<Rightarrow> error + string" where
  "getRealImportFilePath E rootDir fileDir importPath importAlias =
     existFileWithExtensions E (probePath E rootDir fileDir importPath importAlias) defaultExtensions"

text \<open>
  \<^verbatim>\<open>getAppRootDir\<close> calls itself with no bound: above the root directory
  \<^verbatim>\<open>path.resolve('/', '..')\<close> is \<^verbatim>\<open>/\<close> again. Not returning is the value \<open>None\<close>.
\<close>

partial_function (option) getAppRootDir :: "env \<Rightarrow> string \<Rightarrow> (error + string) option" where
  "getAppRootDir E routeConfigPath =
     (let parentPath = resolve (cwd E) [routeConfigPath, ''..'']
      in case readdirSync E parentPath of
           Inl err \<Rightarrow> Some (Inl err)
         | Inr files \<Rightarrow>
             if ''package.json'' \<in> set files then Some (Inr parentPath)
             else getAppRootDir E parentPath)"

declare getAppRootDir.simps [code]

section \<open>Import analysis\<close>

definition extensions :: "string list" where
  "extensions = [''.js'', ''.jsx'', ''.ts'', ''.tsx'']"

record importMap =
  id_str :: string
  source :: string
  importKind :: "importKind option"
  exportName :: "string option"

datatype importMapWithDeps =
  ImportMapWithDeps (info: importMap) (dependencies: "(string \<times> importMapWithDeps) list option")

text \<open>
  \<^verbatim>\<open>transformToAST\<close>, first half: the choice of \<^verbatim>\<open>realPath\<close>. The empty string stands
  for both falsy values the variable can hold (\<^verbatim>\<open>''\<close> and \<^verbatim>\<open>undefined\<close>).
  \<^verbatim>\<open>readdirSync\<close> stands outside the \<^verbatim>\<open>try\<close>, so its error is thrown.
\<close>

definition realPathOf :: "env \<Rightarrow> string \<Rightarrow> error + string" where
  "realPathOf E filePath =
     (if isDirectory E filePath then
        (case readdirSync E filePath of
           Inl err \<Rightarrow> Inl err
         | Inr items \<Rightarrow>
             Inr (fold
                    (\<lambda>item realPath.
                       if \<not> isDirectory E (resolve (cwd E) [filePath, item]) \<and>
                          includes_str item ''index'' \<and>
                          slice item (lastIndexOf item CHR ''.'') \<in> set extensions
                       then resolve (cwd E) [filePath, item]
                       else realPath)
                    items []))
      else
        (let fileName = replace (slice filePath (lastIndexOf filePath CHR ''/'')) ''/'' [];
             suffix = (if lastIndexOf fileName CHR ''.'' > - 1
                       then slice fileName (lastIndexOf fileName CHR ''.'')
                       else [])
         in if suffix \<noteq> [] \<and> suffix \<in> set extensions then Inr filePath
            else if suffix = [] then
              Inr (case find (existsSync E) (filePath # map (\<lambda>ext. filePath @ ext) extensions) of
                     Some p \<Rightarrow> p
                   | None \<Rightarrow> [])
            else Inr []))"

text \<open>
  Second half: \<^verbatim>\<open>if (!realPath) return null\<close>, then the read and the parse inside
  \<^verbatim>\<open>try\<close>; whatever they throw is logged and becomes \<^verbatim>\<open>null\<close>.
\<close>

definition transformToAST :: "env \<Rightarrow> string \<Rightarrow> error + syntaxTree option" where
  "transformToAST E filePath =
     (case realPathOf E filePath of
        Inl err \<Rightarrow> Inl err
      | Inr realPath \<Rightarrow>
          if realPath = [] then Inr None
          else (case readFileSync E realPath of
                  Inl err \<Rightarrow> Inr None
                | Inr content \<Rightarrow>
                    if content \<noteq> [] then
                      (case parse E content of
                         Inl err \<Rightarrow> Inr None
                       | Inr ast \<Rightarrow> Inr (Some ast))
                    else Inr None))"

text \<open>
  The optional \<^verbatim>\<open>filter\<close> is a function of the caller: applied to a source it returns a
  boolean or throws.
\<close>

type_synonym sourceFilter = "(string \<Rightarrow> error + bool) option"

text \<open>
  The three visitors compute \<^verbatim>\<open>absoluteSource\<close> by the same lines; they differ in
  \<^verbatim>\<open>exportName\<close> only. The filter is called for a source that is not relative, and
  what it throws leaves the visitor. \<^verbatim>\<open>if (absoluteSource)\<close> rejects \<^verbatim>\<open>undefined\<close> and
  the empty string.
\<close>

definition absoluteSource ::
  "env \<Rightarrow> string \<Rightarrow> sourceFilter \<Rightarrow> string \<Rightarrow> error + string option" where
  "absoluteSource E filePath filter_fn src =
     (if isRelative src then
        (if isDirectory E filePath then Inr (Some (resolve (cwd E) [filePath, src]))
         else Inr (Some (resolve (cwd E) [dirname filePath, src])))
      else
        (case filter_fn of
           None \<Rightarrow> Inr (Some src)
         | Some f \<Rightarrow>
             (case f src of
                Inl err \<Rightarrow> Inl err
              | Inr accepted \<Rightarrow> Inr (if accepted then Some src else None))))"

fun exportNameOf :: "specifier \<Rightarrow> string option" where
  "exportNameOf (ImportNamespaceSpecifier l) = None"
| "exportNameOf (ImportDefaultSpecifier l) = Some ''default''"
| "exportNameOf (ImportSpecifier l i) = i"

definition visitSpecifier ::
  "env \<Rightarrow> string \<Rightarrow> sourceFilter \<Rightarrow> importDeclaration \<Rightarrow> specifier \<Rightarrow>
   (string \<times> importMap) list \<Rightarrow> error + (string \<times> importMap) list" where
  "visitSpecifier E filePath filter_fn parentNode spec result =
     (case absoluteSource E filePath filter_fn (decl_source parentNode) of
        Inl err \<Rightarrow> Inl err
      | Inr None \<Rightarrow> Inr result
      | Inr (Some a) \<Rightarrow>
          if a = [] then Inr result
          else Inr (objAssign (local spec)
                      \<lparr>id_str = a, source = decl_source parentNode,
                       importKind = decl_importKind parentNode, exportName = exportNameOf spec\<rparr>
                      result))"

text \<open>
  The visits of a traversal: every specifier of every import declaration, in order,
  up to the first visitor that throws.
\<close>

fun visitSpecifiers ::
  "env \<Rightarrow> string \<Rightarrow> sourceFilter \<Rightarrow> importDeclaration \<Rightarrow> specifier list \<Rightarrow>
   (string \<times> importMap) list \<Rightarrow> error + (string \<times> importMap) list" where
  "visitSpecifiers E filePath filter_fn parentNode [] result = Inr result"
| "visitSpecifiers E filePath filter_fn parentNode (spec # specs) result =
     (case visitSpecifier E filePath filter_fn parentNode spec result of
        Inl err \<Rightarrow> Inl err
      | Inr result' \<Rightarrow> visitSpecifiers E filePath filter_fn parentNode specs result')"

fun visitImports ::
  "env \<Rightarrow> string \<Rightarrow> sourceFilter \<Rightarrow> importDeclaration list \<Rightarrow>
   (string \<times> importMap) list \<Rightarrow> error + (string \<times> importMap) list" where
  "visitImports E filePath filter_fn [] result = Inr result"
| "visitImports E filePath filter_fn (parentNode # decls) result =
     (case visitSpecifiers E filePath filter_fn parentNode (specifiers parentNode) result of
        Inl err \<Rightarrow> Inl err
      | Inr result' \<Rightarrow> visitImports E filePath filter_fn decls result')"

text \<open>
  \<^verbatim>\<open>traverse(ast, visitors)\<close>: the scope error of the tree is thrown before a visitor
  runs; \<^verbatim>\<open>result\<close> is local to \<^verbatim>\<open>analyzeImports\<close>, so nothing of it outlives a throw.
  The call stands outside the \<^verbatim>\<open>try\<close> of \<^verbatim>\<open>transformToAST\<close>: \<^verbatim>\<open>analyzeImports\<close> throws
  what it throws.
\<close>

definition traverse ::
  "env \<Rightarrow> string \<Rightarrow> sourceFilter \<Rightarrow> syntaxTree \<Rightarrow>
   (string \<times> importMap) list \<Rightarrow> error + (string \<times> importMap) list" where
  "traverse E filePath filter_fn ast result =
     (case scopeError ast of
        Some err \<Rightarrow> Inl err
      | None \<Rightarrow> visitImports E filePath filter_fn (importDeclarations ast) result)"

definition analyzeImports ::
  "env \<Rightarrow> string \<Rightarrow> sourceFilter \<Rightarrow> error + (string \<times> importMap) list" where
  "analyzeImports E filePath filter_fn =
     (case transformToAST E filePath of
        Inl err \<Rightarrow> Inl err
      | Inr None \<Rightarrow> Inr []
      | Inr (Some ast) \<Rightarrow> traverse E filePath filter_fn ast [])"

section \<open>The dependency graph\<close>

text \<open>
  \<^verbatim>\<open>deepCollect\<close> is the loop over the keys of \<^verbatim>\<open>last\<close>; it calls itself on the
  mapping it has just attached. Nothing in the source bounds the depth of these
  calls, so the depth allowed is a parameter and running out of it is \<open>None\<close>.
  The source updates \<^verbatim>\<open>last[key].dependencies\<close> in place; each mapping comes fresh
  from \<^verbatim>\<open>analyzeImports\<close> and is reachable from one place only, so the updated
  mapping is returned instead.
\<close>

definition leaf :: "string \<times> importMap \<Rightarrow> string \<times> importMapWithDeps" where
  "leaf kv = (fst kv, ImportMapWithDeps (snd kv) None)"

fun deepCollect ::
  "nat \<Rightarrow> env \<Rightarrow> sourceFilter \<Rightarrow> (string \<times> importMapWithDeps) list \<Rightarrow>
   string list \<Rightarrow> (error + (string \<times> importMapWithDeps) list) option" where
  "deepCollect depth E filter_fn [] parentIds = Some (Inr [])"
| "deepCollect depth E filter_fn ((key, dep) # rest) parentIds =
     (let visited =
        (if isRelative (source (info dep)) \<and> \<not> endsWith (id_str (info dep)) ''.json'' then
           (case analyzeImports E (id_str (info dep)) filter_fn of
              Inl err \<Rightarrow> Some (Inl err)
            | Inr innerDeps \<Rightarrow>
                if \<not> (\<exists>i \<in> set (map snd innerDeps). id_str i \<in> set parentIds) then
                  (case depth of
                     0 \<Rightarrow> None
                   | Suc d \<Rightarrow>
                       (case deepCollect d E filter_fn (map leaf innerDeps)
                               (parentIds @ [id_str (info dep)]) of
                          None \<Rightarrow> None
                        | Some (Inl err) \<Rightarrow> Some (Inl err)
                        | Some (Inr deps) \<Rightarrow> Some (Inr (ImportMapWithDeps (info dep) (Some deps)))))
                else Some (Inr dep))
         else Some (Inr dep))
      in case visited of
           None \<Rightarrow> None
         | Some (Inl err) \<Rightarrow> Some (Inl err)
         | Some (Inr dep') \<Rightarrow>
             (case deepCollect depth E filter_fn rest parentIds of
                None \<Rightarrow> None
              | Some (Inl err) \<Rightarrow> Some (Inl err)
              | Some (Inr rest') \<Rightarrow> Some (Inr ((key, dep') # rest'))))"

text \<open>The body of the \<^verbatim>\<open>try\<close> block, and the function with its \<^verbatim>\<open>catch\<close>.\<close>

definition analyzeDependencies_body ::
  "nat \<Rightarrow> env \<Rightarrow> string \<Rightarrow> sourceFilter \<Rightarrow>
   (error + (string \<times> importMapWithDeps) list) option" where
  "analyzeDependencies_body depth E filePath filter_fn =
     (case analyzeImports E filePath filter_fn of
        Inl err \<Rightarrow> Some (Inl err)
      | Inr deps \<Rightarrow> deepCollect depth E filter_fn (map leaf deps) [filePath])"

definition analyzeDependencies ::
  "nat \<Rightarrow> env \<Rightarrow> string \<Rightarrow> sourceFilter \<Rightarrow>
   (error + (string \<times> importMapWithDeps) list) option" where
  "analyzeDependencies depth E filePath filter_fn =
     (case analyzeDependencies_body depth E filePath filter_fn of
        None \<Rightarrow> None
      | Some (Inl err) \<Rightarrow> Some (Inr [])
      | Some (Inr deps) \<Rightarrow> Some (Inr deps))"

section \<open>Example file systems\<close>

datatype fsNode = FileNode string | DirNode "string list"

definition mkEnv :: "(string \<times> fsNode) list \<Rightarrow> (string \<times> importDeclaration list) list \<Rightarrow> env" where
  "mkEnv files asts =
     \<lparr>cwd = ''/'',
      lstatSync = (\<lambda>p. case map_of files p of
                          None \<Rightarrow> Inl (SystemError ''ENOENT'')
                        | Some (FileNode c) \<Rightarrow> Inr RegularFile
                        | Some (DirNode xs) \<Rightarrow> Inr Directory),
      readdirSync = (\<lambda>p. case map_of files p of
                            None \<Rightarrow> Inl (SystemError ''ENOENT'')
                          | Some (FileNode c) \<Rightarrow> Inl (SystemError ''ENOTDIR'')
                          | Some (DirNode xs) \<Rightarrow> Inr xs),
      readFileSync = (\<lambda>p. case map_of files p of
                             None \<Rightarrow> Inl (SystemError ''ENOENT'')
                           | Some (FileNode c) \<Rightarrow> Inr c
                           | Some (DirNode xs) \<Rightarrow> Inl (SystemError ''EISDIR'')),
      access = (\<lambda>p. case map_of files p of
                       None \<Rightarrow> Inl (SystemError ''ENOENT'')
                     | Some n \<Rightarrow> Inr ()),
      existsSync = (\<lambda>p. map_of files p \<noteq> None),
      parse = (\<lambda>content. case map_of asts content of
                            None \<Rightarrow> Inl (SyntaxError content)
                          | Some decls \<Rightarrow>
                              Inr \<lparr>importDeclarations = decls, scopeError = None\<rparr>)\<rparr>"

definition importDefault :: "string \<Rightarrow> string \<Rightarrow> importDeclaration" where
  "importDefault name src =
     \<lparr>decl_source = src, decl_importKind = Some ValueImport,
      specifiers = [ImportDefaultSpecifier name]\<rparr>"

text \<open>Two files that import each other, \<^verbatim>\<open>/p/A.ts\<close> and \<^verbatim>\<open>/p/B.ts\<close>.\<close>

definition cycleEnv :: env where
  "cycleEnv =
     mkEnv
       [(''/p'', DirNode [''A.ts'', ''B.ts'']),
        (''/p/A.ts'', FileNode ''import b from ./B''),
        (''/p/B.ts'', FileNode ''import a from ./A'')]
       [(''import b from ./B'', [importDefault ''b'' ''./B'']),
        (''import a from ./A'', [importDefault ''a'' ''./A''])]"

text \<open>A directory with one text file.\<close>

definition notesEnv :: env where
  "notesEnv =
     mkEnv [(''/d'', DirNode [''notes.txt'']), (''/d/notes.txt'', FileNode ''hello'')] []"


text \<open>A project in which every access to \<^verbatim>\<open>/proj/src/locked.js\<close> is refused.\<close>

definition lockedEnv :: env where
  "lockedEnv =
     \<lparr>cwd = ''/'',
      lstatSync = (\<lambda>p. if p \<in> set [''/proj'', ''/proj/src''] then Inr Directory
                        else if p = ''/proj/src/locked.js'' then Inr RegularFile
                        else Inl (SystemError ''ENOENT'')),
      readdirSync = (\<lambda>p. if p = ''/proj'' then Inr [''src'']
                          else if p = ''/proj/src'' then Inr [''locked.js'']
                          else Inl (SystemError ''ENOENT'')),
      readFileSync = (\<lambda>p. if p = ''/proj/src/locked.js'' then Inl (SystemError ''EACCES'')
                           else Inl (SystemError ''ENOENT'')),
      access = (\<lambda>p. if p = ''/proj/src/locked.js'' then Inl (SystemError ''EACCES'')
                     else if p \<in> set [''/proj'', ''/proj/src''] then Inr ()
                     else Inl (SystemError ''ENOENT'')),
      existsSync = (\<lambda>p. p \<in> set [''/proj'', ''/proj/src'', ''/proj/src/locked.js'']),
      parse = (\<lambda>content. Inl (SyntaxError content))\<rparr>"

text \<open>A project with a component directory that holds an index file.\<close>

definition buttonEnv :: env where
  "buttonEnv =
     mkEnv
       [(''/proj'', DirNode [''src'']),
        (''/proj/src'', DirNode [''app.tsx'', ''components'']),
        (''/proj/src/app.tsx'', FileNode ''import Button from components/Button''),
        (''/proj/src/components'', DirNode [''Button'']),
        (''/proj/src/components/Button'', DirNode [''index.tsx'']),
        (''/proj/src/components/Button/index.tsx'', FileNode ''export default Button'')]
       []"

text \<open>
  The same project with the component directory reached through a symbolic link:
  \<^verbatim>\<open>/proj/src/components/Button\<close> is a link to the directory \<^verbatim>\<open>/proj/shared/Button\<close>.
  \<^verbatim>\<open>lstatSync\<close> reports the link itself; the other calls follow it.
\<close>

definition linkEnv :: env where
  "linkEnv =
     \<lparr>cwd = ''/'',
      lstatSync = (\<lambda>p. if p = ''/proj/src/components/Button'' then Inr SymbolicLink
                        else if p \<in> set [''/proj'', ''/proj/src'', ''/proj/src/components'',
                                           ''/proj/shared'', ''/proj/shared/Button'']
                        then Inr Directory
                        else if p \<in> set [''/proj/src/app.tsx'', ''/proj/shared/Button/index.tsx'',
                                           ''/proj/src/components/Button/index.tsx'']
                        then Inr RegularFile
                        else Inl (SystemError ''ENOENT'')),
      readdirSync = (\<lambda>p. if p = ''/proj'' then Inr [''shared'', ''src'']
                          else if p = ''/proj/src'' then Inr [''app.tsx'', ''components'']
                          else if p = ''/proj/src/components'' then Inr [''Button'']
                          else if p = ''/proj/shared'' then Inr [''Button'']
                          else if p \<in> set [''/proj/shared/Button'', ''/proj/src/components/Button'']
                          then Inr [''index.tsx'']
                          else Inl (SystemError ''ENOENT'')),
      readFileSync = (\<lambda>p. if p \<in> set [''/proj/shared/Button/index.tsx'',
                                             ''/proj/src/components/Button/index.tsx'']
                           then Inr ''export default Button''
                           else if p = ''/proj/src/app.tsx''
                           then Inr ''import Button from components/Button''
                           else Inl (SystemError ''ENOENT'')),
      access = (\<lambda>p. if p \<in> set [''/proj'', ''/proj/src'', ''/proj/src/components'', ''/proj/shared'',
                                     ''/proj/shared/Button'', ''/proj/src/components/Button'',
                                     ''/proj/src/app.tsx'', ''/proj/shared/Button/index.tsx'',
                                     ''/proj/src/components/Button/index.tsx'']
                     then Inr ()
                     else Inl (SystemError ''ENOENT'')),
      existsSync = (\<lambda>p. p \<in> set [''/proj'', ''/proj/src'', ''/proj/src/components'', ''/proj/shared'',
                                     ''/proj/shared/Button'', ''/proj/src/components/Button'',
                                     ''/proj/src/app.tsx'', ''/proj/shared/Button/index.tsx'',
                                     ''/proj/src/components/Button/index.tsx'']),
      parse = (\<lambda>content. Inl (SyntaxError content))\<rparr>"

text \<open>A repository with its manifest two levels above the route configuration.\<close>

definition repoEnv :: env where
  "repoEnv =
     mkEnv
       [(''/'', DirNode [''repo'']),
        (''/repo'', DirNode [''app'', ''package.json'']),
        (''/repo/package.json'', FileNode ''{}''),
        (''/repo/app'', DirNode [''config'']),
        (''/repo/app/config'', DirNode [''routes.ts'']),
        (''/repo/app/config/routes.ts'', FileNode ''export default []'')]
       []"

text \<open>
  The same repository with a directory named \<^verbatim>\<open>package.json\<close> inside \<^verbatim>\<open>/repo/app\<close>, and
  the same repository with a configuration directory that exists and cannot be listed.
\<close>

definition nestedRepoEnv :: env where
  "nestedRepoEnv =
     mkEnv
       [(''/'', DirNode [''repo'']),
        (''/repo'', DirNode [''app'', ''package.json'']),
        (''/repo/package.json'', FileNode ''{}''),
        (''/repo/app'', DirNode [''config'', ''package.json'']),
        (''/repo/app/package.json'', DirNode []),
        (''/repo/app/config'', DirNode [''routes.ts'']),
        (''/repo/app/config/routes.ts'', FileNode ''export default []'')]
       []"

definition privateRepoEnv :: env where
  "privateRepoEnv =
     repoEnv
     \<lparr>readdirSync := (\<lambda>p. if p = ''/repo/app/config'' then Inl (SystemError ''EACCES'')
                            else readdirSync repoEnv p)\<rparr>"

text \<open>
  An entry file that imports \<^verbatim>\<open>./a\<close> and \<^verbatim>\<open>lodash\<close>; \<^verbatim>\<open>a.ts\<close> imports nothing.
\<close>

definition filterEnv :: env where
  "filterEnv =
     mkEnv
       [(''/proj'', DirNode [''a.ts'', ''entry.ts'']),
        (''/proj/entry.ts'', FileNode ''import a from ./a; import lodash from lodash''),
        (''/proj/a.ts'', FileNode ''export const x = 1'')]
       [(''import a from ./a; import lodash from lodash'',
           [importDefault ''a'' ''./a'', importDefault ''lodash'' ''lodash'']),
        (''export const x = 1'', [])]"


text \<open>A filter that throws for the source \<^verbatim>\<open>react\<close> and accepts every other source.\<close>

definition refuseReact :: sourceFilter where
  "refuseReact =
     Some (\<lambda>src. if src = ''react'' then Inl (Error ''react is not allowed'') else Inr True)"

text \<open>
  An entry file that imports \<^verbatim>\<open>./B\<close> and then the directory \<^verbatim>\<open>./locked\<close>, which
  cannot be listed.
\<close>

definition failEnv :: env where
  "failEnv =
     (mkEnv
        [(''/p'', DirNode [''A.ts'', ''B.ts'', ''locked'']),
         (''/p/A.ts'', FileNode ''import b from ./B; import c from ./locked''),
         (''/p/B.ts'', FileNode ''import react from react''),
         (''/p/locked'', DirNode [''index.ts''])]
        [(''import b from ./B; import c from ./locked'',
            [importDefault ''b'' ''./B'', importDefault ''c'' ''./locked'']),
         (''import react from react'', [importDefault ''react'' ''react''])])
     \<lparr>readdirSync := (\<lambda>p. if p = ''/p/locked'' then Inl (SystemError ''EACCES'')
                            else if p = ''/p'' then Inr [''A.ts'', ''B.ts'', ''locked'']
                            else Inl (SystemError ''ENOENT''))\<rparr>"

text \<open>
  An entry file that imports \<^verbatim>\<open>./B\<close> and then \<^verbatim>\<open>./C\<close>. The parser returns a tree for
  \<^verbatim>\<open>C.ts\<close>, which imports the name \<^verbatim>\<open>x\<close> twice, as a value and as a type; the
  traversal of that tree throws on the second declaration.
\<close>

definition clashEnv :: env where
  "clashEnv =
     (mkEnv
        [(''/p'', DirNode [''A.ts'', ''B.ts'', ''C.ts'']),
         (''/p/A.ts'', FileNode ''import b from ./B; import c from ./C''),
         (''/p/B.ts'', FileNode ''import react from react''),
         (''/p/C.ts'', FileNode ''import x from ./x; import type x from ./types'')]
        [])
     \<lparr>parse := (\<lambda>content.
         if content = ''import b from ./B; import c from ./C''
         then Inr \<lparr>importDeclarations = [importDefault ''b'' ''./B'', importDefault ''c'' ''./C''],
                   scopeError = None\<rparr>
         else if content = ''import react from react''
         then Inr \<lparr>importDeclarations = [importDefault ''react'' ''react''], scopeError = None\<rparr>
         else if content = ''import x from ./x; import type x from ./types''
         then Inr \<lparr>importDeclarations =
                     [importDefault ''x'' ''./x'',
                      \<lparr>decl_source = ''./types'', decl_importKind = Some TypeImport,
                       specifiers = [ImportDefaultSpecifier ''x'']\<rparr>],
                   scopeError = Some (TypeError ''Duplicate declaration x'')\<rparr>
         else Inl (SyntaxError content))\<rparr>"


section \<open>Notions used in the statements\<close>

text \<open>
  An absolute path starts with a slash; Node's \<^verbatim>\<open>process.cwd()\<close> always is one. The
  segments of a path are what is left of it after normalisation; a clean segment is
  one that normalisation keeps as it is.
\<close>

definition absolute :: "string \<Rightarrow> bool" where
  "absolute p = (p \<noteq> [] \<and> hd p = CHR ''/'')"

definition cleanSeg :: "string \<Rightarrow> bool" where
  "cleanSeg seg = (seg \<noteq> [] \<and> seg \<noteq> ''.'' \<and> seg \<noteq> ''..'' \<and> CHR ''/'' \<notin> set seg)"

definition segments :: "string \<Rightarrow> string list" where
  "segments p = normalizeString False [] (splitOn CHR ''/'' p)"

text \<open>
  The \<open>k\<close>-th directory above a path, as \<^verbatim>\<open>path.resolve(p, '..')\<close> computes it step
  by step.
\<close>

primrec ancestor :: "env \<Rightarrow> nat \<Rightarrow> string \<Rightarrow> string" where
  "ancestor E 0 p = p"
| "ancestor E (Suc k) p = ancestor E k (resolve (cwd E) [p, ''..''])"



text \<open>An import that \<^verbatim>\<open>deepCollect\<close> follows: relative, and not a JSON file.\<close>

definition expandable :: "importMap \<Rightarrow> bool" where
  "expandable d = (isRelative (source d) \<and> \<not> endsWith (id_str d) ''.json'')"



definition filterThrows :: "sourceFilter \<Rightarrow> string \<Rightarrow> error \<Rightarrow> bool" where
  "filterThrows filter_fn src err = (case filter_fn of None \<Rightarrow> False | Some f \<Rightarrow> f src = Inl err)"



text \<open>An entry with the dependencies that \<^verbatim>\<open>deepCollect\<close> attaches to an import it follows.\<close>

definition attach ::
  "(string \<times> importMapWithDeps) list \<Rightarrow> string \<times> importMap \<Rightarrow> string \<times> importMapWithDeps" where
  "attach deps kv =
     (fst kv, ImportMapWithDeps (snd kv) (if expandable (snd kv) then Some deps else None))"

text \<open>
  The whole graph below a mapping of imports, for a list of ancestor ids: an import
  that is not followed, or whose own imports hit an ancestor, is a leaf; every other
  import carries the whole graph of its own imports, with its id added to the
  ancestors. No depth is counted here, and no import is left half-built.
\<close>

inductive wholeGraph ::
  "env \<Rightarrow> sourceFilter \<Rightarrow> string list \<Rightarrow> (string \<times> importMap) list \<Rightarrow>
   (string \<times> importMapWithDeps) list \<Rightarrow> bool"
  for E :: env and filter_fn :: "sourceFilter" where
  Done: "wholeGraph E filter_fn parentIds [] []"
| Leaf: "\<not> expandable d \<Longrightarrow> wholeGraph E filter_fn parentIds rest g \<Longrightarrow>
         wholeGraph E filter_fn parentIds ((k, d) # rest) ((k, ImportMapWithDeps d None) # g)"
| Cut: "expandable d \<Longrightarrow> analyzeImports E (id_str d) filter_fn = Inr inner \<Longrightarrow>
        list_ex (\<lambda>i. id_str (snd i) \<in> set parentIds) inner \<Longrightarrow>
        wholeGraph E filter_fn parentIds rest g \<Longrightarrow>
        wholeGraph E filter_fn parentIds ((k, d) # rest) ((k, ImportMapWithDeps d None) # g)"
| Follow: "expandable d \<Longrightarrow> analyzeImports E (id_str d) filter_fn = Inr inner \<Longrightarrow>
           \<not> list_ex (\<lambda>i. id_str (snd i) \<in> set parentIds) inner \<Longrightarrow>
           wholeGraph E filter_fn (parentIds @ [id_str d]) inner sub \<Longrightarrow>
           wholeGraph E filter_fn parentIds rest g \<Longrightarrow>
           wholeGraph E filter_fn parentIds ((k, d) # rest) ((k, ImportMapWithDeps d (Some sub)) # g)"

code_pred wholeGraph .

section \<open>Path resolution\<close>

text \<open>
  Resolving a list of paths in one call gives the same path as resolving a first part
  of the list and then the rest against the result, when the working directory is
  absolute.
\<close>

lemma resolveJoin_acc:
  "resolveJoin ps acc = (fst (resolveJoin ps []) @ acc, snd (resolveJoin ps []))"
proof (induction ps arbitrary: acc)
  case Nil
  then show ?case by simp
next
  case (Cons p ps)
  show ?case
    using Cons.IH [of acc] Cons.IH [of "p @ CHR ''/'' # acc"] Cons.IH [of "p @ ''/''"]
    by simp
qed

lemma splitOn_not_Nil: "splitOn c s \<noteq> []"
  by (induction s) (auto split: list.splits)

lemma splitOn_append_sep: "splitOn c (a @ c # b) = splitOn c a @ splitOn c b"
  by (induction a) (auto simp: splitOn_not_Nil split: list.splits)

lemma splitOn_no_sep: "w \<in> set (splitOn c s) \<Longrightarrow> c \<notin> set w"
  by (induction s arbitrary: w) (auto split: if_splits list.splits)

lemma splitOn_no_sep_single: "c \<notin> set w \<Longrightarrow> splitOn c w = [w]"
  by (induction w) (auto split: list.splits)

lemma splitOn_joinWith:
  "ws \<noteq> [] \<Longrightarrow> \<forall>w \<in> set ws. c \<notin> set w \<Longrightarrow> splitOn c (joinWith c ws) = ws"
proof (induction c ws rule: joinWith.induct)
  case (1 c)
  then show ?case by simp
next
  case (2 c w)
  then show ?case by (simp add: splitOn_no_sep_single)
next
  case (3 c w v ws)
  then show ?case by (simp add: splitOn_append_sep splitOn_no_sep_single)
qed

lemma normalizeString_append:
  "normalizeString a st (u @ v) = normalizeString a (rev (normalizeString a st u)) v"
proof (induction u arbitrary: st)
  case Nil
  then show ?case by simp
next
  case (Cons seg u)
  show ?case
    using Cons.IH by (cases a; cases st) simp_all
qed



lemma normalizeString_skip:
  "seg = [] \<or> seg = ''.'' \<Longrightarrow> normalizeString a st (seg # segs) = normalizeString a st segs"
  by auto

lemma normalizeString_push:
  "seg \<noteq> [] \<Longrightarrow> seg \<noteq> ''.'' \<Longrightarrow> seg \<noteq> ''..'' \<Longrightarrow>
   normalizeString a st (seg # segs) = normalizeString a (seg # st) segs"
  by simp

lemma normalizeString_pop:
  "lastSeg \<noteq> ''..'' \<Longrightarrow>
   normalizeString a (lastSeg # below) (''..'' # segs) = normalizeString a below segs"
  by simp

lemma normalizeString_above_root:
  "normalizeString False [] (''..'' # segs) = normalizeString False [] segs"
  by simp

lemma normalizeString_clean_stack:
  "\<forall>w \<in> set st. cleanSeg w \<Longrightarrow> \<forall>w \<in> set u. CHR ''/'' \<notin> set w \<Longrightarrow>
   \<forall>w \<in> set (normalizeString False st u). cleanSeg w"
proof (induction u arbitrary: st)
  case Nil
  then show ?case by simp
next
  case (Cons seg u)
  have tl: "\<forall>w \<in> set u. CHR ''/'' \<notin> set w" and hd: "CHR ''/'' \<notin> set seg"
    using Cons.prems by simp_all
  consider (skip) "seg = [] \<or> seg = ''.''" | (up) "seg = ''..''"
    | (push) "seg \<noteq> []" "seg \<noteq> ''.''" "seg \<noteq> ''..''"
    by blast
  then show ?case
  proof cases
    case skip
    show ?thesis
      unfolding normalizeString_skip [OF skip] by (rule Cons.IH [OF Cons.prems(1) tl])
  next
    case up
    show ?thesis
    proof (cases st)
      case Nil
      show ?thesis
        unfolding up Nil normalizeString_above_root
        using Cons.IH [of "[]"] tl by simp
    next
      case (Cons lastSeg below)
      have ne: "lastSeg \<noteq> ''..''" and below: "\<forall>w \<in> set below. cleanSeg w"
        using Cons.prems(1) Cons by (simp_all add: cleanSeg_def)
      show ?thesis
        unfolding up Cons normalizeString_pop [OF ne]
        by (rule Cons.IH [OF below tl])
    qed
  next
    case push
    have st': "\<forall>w \<in> set (seg # st). cleanSeg w"
      using Cons.prems(1) push hd by (simp add: cleanSeg_def)
    show ?thesis
      unfolding normalizeString_push [OF push] by (rule Cons.IH [OF st' tl])
  qed
qed


lemma normalizeString_clean_input:
  "\<forall>w \<in> set u. cleanSeg w \<Longrightarrow> normalizeString a st u = rev st @ u"
  by (induction u arbitrary: st) (simp_all add: cleanSeg_def)

lemma resolveJoin_append:
  "resolveJoin (as @ bs) acc =
     (if snd (resolveJoin as acc) then resolveJoin as acc
      else resolveJoin bs (fst (resolveJoin as acc)))"
  by (induction as arbitrary: acc) simp_all

lemma resolveJoin_absolute_last:
  "absolute c \<Longrightarrow> snd (resolveJoin (ps @ [c]) acc)"
  by (induction ps arbitrary: acc) (simp_all add: absolute_def)

lemma resolveJoin_ends_with_slash:
  "snd (resolveJoin ps []) \<Longrightarrow> \<exists>q. fst (resolveJoin ps []) = q @ ''/''"
proof (induction ps)
  case Nil
  then show ?case by simp
next
  case (Cons p ps)
  show ?case
  proof (cases "p = []")
    case True
    with Cons show ?thesis by simp
  next
    case False
    show ?thesis
    proof (cases "hd p = CHR ''/''")
      case True
      with False show ?thesis by simp
    next
      case notabs: False
      have "resolveJoin (p # ps) [] = (fst (resolveJoin ps []) @ p @ ''/'', snd (resolveJoin ps []))"
        using False notabs resolveJoin_acc [of ps "p @ ''/''"] by simp
      then show ?thesis by simp
    qed
  qed
qed

lemma segments_clean: "\<forall>w \<in> set (segments p). cleanSeg w"
  unfolding segments_def
  by (rule normalizeString_clean_stack) (simp_all add: splitOn_no_sep)

lemma resolve_absolute:
  assumes "resolveJoin (rev args @ [wd]) [] = (p, True)"
  shows "resolve wd args = CHR ''/'' # joinWith CHR ''/'' (segments p)"
  using assms by (simp add: resolve_def segments_def)

lemma segments_trailing_slash: "segments (q @ ''/'') = segments q"
proof -
  have "splitOn CHR ''/'' (q @ ''/'') = splitOn CHR ''/'' q @ [[]]"
    using splitOn_append_sep [of "CHR ''/''" q "[]"] by simp
  then show ?thesis
    by (simp add: segments_def normalizeString_append)
qed

lemma segments_after_slash:
  "normalizeString False [] (splitOn CHR ''/'' (q @ CHR ''/'' # r)) =
     normalizeString False (rev (segments q)) (splitOn CHR ''/'' r)"
  by (simp add: splitOn_append_sep normalizeString_append segments_def)

lemma segments_of_joined:
  assumes "\<forall>w \<in> set ws. cleanSeg w"
  shows "segments (CHR ''/'' # joinWith CHR ''/'' ws) = ws"
proof (cases "ws = []")
  case True
  then show ?thesis by (simp add: segments_def)
next
  case False
  have nosep: "\<forall>w \<in> set ws. CHR ''/'' \<notin> set w"
    using assms by (simp add: cleanSeg_def)
  have "splitOn CHR ''/'' (CHR ''/'' # joinWith CHR ''/'' ws) = [] # ws"
    using splitOn_joinWith [OF False nosep] by simp
  then show ?thesis
    using normalizeString_clean_input [OF assms, of False "[]"]
    by (simp add: segments_def)
qed

lemma resolve_assoc:
  assumes "absolute wd"
  shows "resolve wd (xs @ ys) = resolve wd (resolve wd xs # ys)"
proof -
  obtain pX where jX: "resolveJoin (rev xs @ [wd]) [] = (pX, True)"
    using resolveJoin_absolute_last [OF assms, of "rev xs" "[]"]
    by (cases "resolveJoin (rev xs @ [wd]) []") simp
  have rX: "resolve wd xs = CHR ''/'' # joinWith CHR ''/'' (segments pX)"
    by (rule resolve_absolute [OF jX])
  obtain q where q: "pX = q @ ''/''"
    using resolveJoin_ends_with_slash [of "rev xs @ [wd]"] jX by auto
  obtain pY aY where jY: "resolveJoin (rev ys) [] = (pY, aY)"
    by (cases "resolveJoin (rev ys) []")
  show ?thesis
  proof (cases aY)
    case True
    have l: "resolveJoin (rev (xs @ ys) @ [wd]) [] = (pY, True)"
      using jY True by (simp add: resolveJoin_append)
    have r: "resolveJoin (rev (resolve wd xs # ys) @ [wd]) [] = (pY, True)"
      using jY True by (simp add: resolveJoin_append)
    show ?thesis
      by (simp add: resolve_absolute [OF l] resolve_absolute [OF r])
  next
    case False
    have l: "resolveJoin (rev (xs @ ys) @ [wd]) [] = (pX @ pY, True)"
      using jY False jX resolveJoin_acc [of "rev xs @ [wd]" pY]
      by (simp add: resolveJoin_append)
    have r: "resolveJoin (rev (resolve wd xs # ys) @ [wd]) [] = (resolve wd xs @ CHR ''/'' # pY, True)"
      using jY False by (simp add: resolveJoin_append rX)
    have "segments (pX @ pY) = normalizeString False [] (splitOn CHR ''/'' (q @ CHR ''/'' # pY))"
      by (simp add: q segments_def)
    also have "\<dots> = normalizeString False (rev (segments q)) (splitOn CHR ''/'' pY)"
      by (rule segments_after_slash)
    also have "segments q = segments pX"
      by (simp only: q segments_trailing_slash)
    finally have left: "segments (pX @ pY) =
        normalizeString False (rev (segments pX)) (splitOn CHR ''/'' pY)" .
    have "segments (resolve wd xs @ CHR ''/'' # pY) =
        normalizeString False (rev (segments (resolve wd xs))) (splitOn CHR ''/'' pY)"
      unfolding segments_def [of "resolve wd xs @ CHR ''/'' # pY"] by (rule segments_after_slash)
    also have "segments (resolve wd xs) = segments pX"
      unfolding rX by (rule segments_of_joined [OF segments_clean])
    finally have right: "segments (resolve wd xs @ CHR ''/'' # pY) =
        normalizeString False (rev (segments pX)) (splitOn CHR ''/'' pY)" .
    from left right show ?thesis
      by (simp add: resolve_absolute [OF l] resolve_absolute [OF r])
  qed
qed

section \<open>The probing loops\<close>

text \<open>
  A candidate that fails with \<^verbatim>\<open>ENOENT\<close> is passed over; the first candidate that does
  anything else decides the result.
\<close>

lemma existFileWithExtensions_skip:
  assumes "\<forall>x \<in> set pre. \<exists>e. access E (candidatePath base x) = Inl e \<and> code e = Some ''ENOENT''"
  shows "existFileWithExtensions E base (pre @ exts) = existFileWithExtensions E base exts"
  using assms by (induction pre) auto

lemma readFileWithExtensions_skip:
  assumes "\<forall>x \<in> set pre. \<exists>e. readFileSync E (candidatePath base x) = Inl e \<and> code e = Some ''ENOENT''"
  shows "readFileWithExtensions E base (pre @ exts) = readFileWithExtensions E base exts"
  using assms by (induction pre) auto

lemma readFileWithExtensions_found:
  assumes "\<forall>x \<in> set pre. \<exists>e. readFileSync E (candidatePath base x) = Inl e \<and> code e = Some ''ENOENT''"
    and "readFileSync E (candidatePath base ext) = Inr content"
  shows "readFileWithExtensions E base (pre @ ext # post) = Inr content"
  using assms by (simp add: readFileWithExtensions_skip)

lemma readFileWithExtensions_not_found:
  assumes "\<forall>x \<in> set exts. \<exists>e. readFileSync E (candidatePath base x) = Inl e \<and> code e = Some ''ENOENT''"
  shows "readFileWithExtensions E base exts =
           Inl (Error (''No file found with the given extensions.('' @ base @ '')''))"
  using readFileWithExtensions_skip [OF assms, of "[]"] by simp

text \<open>
  Claim C5. \<^verbatim>\<open>readFileWithExtensions\<close> is to try the suffixes \<^verbatim>\<open>.js\<close>, \<^verbatim>\<open>.jsx\<close>, \<^verbatim>\<open>.ts\<close>,
  \<^verbatim>\<open>.tsx\<close>, \<^verbatim>\<open>.json\<close>, \<^verbatim>\<open>.txt\<close> in order when no list is given. The last entry of
  the default list in the source is \<^verbatim>\<open>txt\<close>, without the dot: for the base path
  \<^verbatim>\<open>/d/notes\<close> the last candidate is \<^verbatim>\<open>/d/notestxt\<close>, and the call throws the
  not-found error although \<^verbatim>\<open>/d/notes.txt\<close> exists and reads as \<^verbatim>\<open>hello\<close>.
\<close>

theorem readFileWithExtensions_default_txt_without_dot:
  "last defaultExtensions = ''txt'' \<and>
   candidatePath ''/d/notes'' (last defaultExtensions) = ''/d/notestxt'' \<and>
   readFileSync notesEnv ''/d/notes.txt'' = Inr ''hello'' \<and>
   readFileWithExtensions notesEnv ''/d/notes'' defaultExtensions =
     Inl (Error ''No file found with the given extensions.(/d/notes)'')"
  by (simp add: defaultExtensions_def candidatePath_def includes_str_def startsWith_def
      notesEnv_def mkEnv_def)

lemma probePath_locked: "probePath lockedEnv ''/proj'' ''/proj/src/app.ts'' ''locked'' None = ''/proj/src/locked''"
  by (simp add: probePath_def specifierPath_def includes_str_def startsWith_def isRelative_def
      enableAlias_def objSpread_def resolve_def isDirectory_def lockedEnv_def)

text \<open>
  Claim C10. In both probing loops, once every earlier candidate has failed with
  \<^verbatim>\<open>ENOENT\<close>, a candidate that fails with any other error ends the loop with that
  error thrown; \<^verbatim>\<open>getRealImportFilePath\<close> ends with the probe over the default list,
  so the error reaches its caller in place of the empty string.
\<close>

theorem non_ENOENT_errors_are_rethrown:
  "((\<forall>x \<in> set pre. \<exists>e. access E (candidatePath base x) = Inl e \<and> code e = Some ''ENOENT'') \<and>
     access E (candidatePath base ext) = Inl err \<and> code err \<noteq> Some ''ENOENT''
     \<longrightarrow> existFileWithExtensions E base (pre @ ext # post) = Inl err) \<and>
   ((\<forall>x \<in> set pre. \<exists>e. readFileSync E (candidatePath base x) = Inl e \<and> code e = Some ''ENOENT'') \<and>
     readFileSync E (candidatePath base ext) = Inl err \<and> code err \<noteq> Some ''ENOENT''
     \<longrightarrow> readFileWithExtensions E base (pre @ ext # post) = Inl err) \<and>
   ((\<forall>x \<in> set pre. \<exists>e. access E (candidatePath (probePath E rootDir fileDir importPath importAlias) x) = Inl e
        \<and> code e = Some ''ENOENT'') \<and>
     defaultExtensions = pre @ ext # post \<and>
     access E (candidatePath (probePath E rootDir fileDir importPath importAlias) ext) = Inl err \<and>
     code err \<noteq> Some ''ENOENT''
     \<longrightarrow> getRealImportFilePath E rootDir fileDir importPath importAlias = Inl err)"
proof (intro conjI impI)
  assume "(\<forall>x \<in> set pre. \<exists>e. access E (candidatePath base x) = Inl e \<and> code e = Some ''ENOENT'') \<and>
     access E (candidatePath base ext) = Inl err \<and> code err \<noteq> Some ''ENOENT''"
  then show "existFileWithExtensions E base (pre @ ext # post) = Inl err"
    by (simp add: existFileWithExtensions_skip)
next
  assume "(\<forall>x \<in> set pre. \<exists>e. readFileSync E (candidatePath base x) = Inl e \<and> code e = Some ''ENOENT'') \<and>
     readFileSync E (candidatePath base ext) = Inl err \<and> code err \<noteq> Some ''ENOENT''"
  then show "readFileWithExtensions E base (pre @ ext # post) = Inl err"
    by (simp add: readFileWithExtensions_skip)
next
  let ?p = "probePath E rootDir fileDir importPath importAlias"
  assume h: "(\<forall>x \<in> set pre. \<exists>e. access E (candidatePath ?p x) = Inl e \<and> code e = Some ''ENOENT'') \<and>
     defaultExtensions = pre @ ext # post \<and>
     access E (candidatePath ?p ext) = Inl err \<and> code err \<noteq> Some ''ENOENT''"
  from h have skipped: "\<forall>x \<in> set pre. \<exists>e. access E (candidatePath ?p x) = Inl e \<and> code e = Some ''ENOENT''"
    and thrown: "access E (candidatePath ?p ext) = Inl err" "code err \<noteq> Some ''ENOENT''"
    by blast+
  have rethrown: "existFileWithExtensions E ?p (pre @ ext # post) = Inl err"
    using thrown by (simp add: existFileWithExtensions_skip [OF skipped])
  from h have exts: "defaultExtensions = pre @ ext # post"
    by blast
  show "getRealImportFilePath E rootDir fileDir importPath importAlias = Inl err"
    unfolding getRealImportFilePath_def exts by (rule rethrown)
qed

theorem non_ENOENT_errors_are_rethrown_witness:
  "existFileWithExtensions lockedEnv ''/proj/src/locked'' defaultExtensions = Inl (SystemError ''EACCES'') \<and>
   readFileWithExtensions lockedEnv ''/proj/src/locked'' defaultExtensions = Inl (SystemError ''EACCES'') \<and>
   getRealImportFilePath lockedEnv ''/proj'' ''/proj/src/app.ts'' ''locked'' None = Inl (SystemError ''EACCES'')"
proof -
  let ?post = "[''.jsx'', ''.ts'', ''.tsx'', ''.json'', ''txt'']"
  have split: "defaultExtensions = [] @ ''.js'' # ?post"
    by (simp add: defaultExtensions_def)
  have cand: "candidatePath ''/proj/src/locked'' ''.js'' = ''/proj/src/locked.js''"
    by (simp add: candidatePath_def includes_str_def startsWith_def)
  have a: "(\<forall>x \<in> set []. \<exists>e. access lockedEnv (candidatePath ''/proj/src/locked'' x) = Inl e \<and> code e = Some ''ENOENT'') \<and>
     access lockedEnv (candidatePath ''/proj/src/locked'' ''.js'') = Inl (SystemError ''EACCES'') \<and>
     code (SystemError ''EACCES'') \<noteq> Some ''ENOENT''"
    by (simp add: cand lockedEnv_def)
  have r: "(\<forall>x \<in> set []. \<exists>e. readFileSync lockedEnv (candidatePath ''/proj/src/locked'' x) = Inl e \<and> code e = Some ''ENOENT'') \<and>
     readFileSync lockedEnv (candidatePath ''/proj/src/locked'' ''.js'') = Inl (SystemError ''EACCES'') \<and>
     code (SystemError ''EACCES'') \<noteq> Some ''ENOENT''"
    by (simp add: cand lockedEnv_def)
  have g: "(\<forall>x \<in> set []. \<exists>e. access lockedEnv (candidatePath (probePath lockedEnv ''/proj'' ''/proj/src/app.ts'' ''locked'' None) x) = Inl e
        \<and> code e = Some ''ENOENT'') \<and>
     defaultExtensions = [] @ ''.js'' # ?post \<and>
     access lockedEnv (candidatePath (probePath lockedEnv ''/proj'' ''/proj/src/app.ts'' ''locked'' None) ''.js'') = Inl (SystemError ''EACCES'') \<and>
     code (SystemError ''EACCES'') \<noteq> Some ''ENOENT''"
    unfolding probePath_locked cand using split by (simp add: lockedEnv_def)
  note inst = non_ENOENT_errors_are_rethrown
    [of "[]" lockedEnv "''/proj/src/locked''" "''.js''" "SystemError ''EACCES''" ?post
        "''/proj''" "''/proj/src/app.ts''" "''locked''" None]
  have 1: "existFileWithExtensions lockedEnv ''/proj/src/locked'' ([] @ ''.js'' # ?post) = Inl (SystemError ''EACCES'')"
    using inst a by blast
  have 2: "readFileWithExtensions lockedEnv ''/proj/src/locked'' ([] @ ''.js'' # ?post) = Inl (SystemError ''EACCES'')"
    using inst r by blast
  have 3: "getRealImportFilePath lockedEnv ''/proj'' ''/proj/src/app.ts'' ''locked'' None = Inl (SystemError ''EACCES'')"
    using inst g by blast
  show ?thesis
    unfolding split by (intro conjI) (rule 1, rule 2, rule 3)
qed

section \<open>Resolving a specifier\<close>

lemma find_append_rev:
  "find P (xs @ ys) = (case find P xs of None \<Rightarrow> find P ys | Some x \<Rightarrow> Some x)"
  by (induction xs) simp_all

lemma fold_last_match:
  "fold (\<lambda>(k, v) acc. if P k then g k v else acc) kvs d =
     (case find (\<lambda>(k, v). P k) (rev kvs) of None \<Rightarrow> d | Some (k, v) \<Rightarrow> g k v)"
proof (induction kvs arbitrary: d)
  case Nil
  then show ?case by simp
next
  case (Cons kv kvs)
  obtain k v where kv: "kv = (k, v)" by (cases kv)
  show ?case
    by (simp add: kv Cons.IH find_append_rev split: option.splits)
qed

lemmas obj_defs = objSet_def isArrayIndex_def isDigit_def indexValue_def

lemma map_of_updateKey:
  "k \<in> fst ` set obj \<Longrightarrow> map_of (updateKey k v obj) x = ((map_of obj)(k \<mapsto> v)) x"
  by (induction obj) force+

lemma map_of_insertIndex:
  "k \<notin> fst ` set obj \<Longrightarrow> map_of (insertIndex k v obj) x = ((map_of obj)(k \<mapsto> v)) x"
  by (induction obj) force+

lemma map_of_append_new:
  "k \<notin> fst ` set obj \<Longrightarrow> map_of (obj @ [(k, v)]) x = ((map_of obj)(k \<mapsto> v)) x"
  by (induction obj) force+

lemma map_of_objSet: "map_of (objSet k v obj) = (map_of obj)(k \<mapsto> v)"
proof
  fix x
  show "map_of (objSet k v obj) x = ((map_of obj)(k \<mapsto> v)) x"
    unfolding objSet_def
    using map_of_updateKey [of k obj v x] map_of_insertIndex [of k obj v x]
      map_of_append_new [of k obj v x]
    by (cases "k \<in> fst ` set obj"; cases "isArrayIndex k") (simp_all del: map_of_append)
qed

lemma map_of_objSpread: "map_of (objSpread obj src) = map_of obj ++ map_of (rev src)"
  unfolding objSpread_def
proof (induction src arbitrary: obj)
  case Nil
  then show ?case by simp
next
  case (Cons kv src)
  obtain k v where kv: "kv = (k, v)" by (cases kv)
  show ?case
    by (simp add: kv Cons.IH map_of_objSet map_add_def fun_eq_iff split: option.splits)
qed

lemma specifierPath_button:
  "specifierPath buttonEnv ''/proj'' ''/proj/src/app.tsx'' ''components/Button'' None =
     ''/proj/src/components/Button''"
  by (simp add: specifierPath_def includes_str_def startsWith_def isRelative_def
      enableAlias_def objSpread_def obj_defs resolve_def buttonEnv_def mkEnv_def)

text \<open>
  Claim C3, as amended. For a specifier that is not relative and that does not fall
  under the routing-configuration rule (the importing file's path contains
  \<^verbatim>\<open>config/config\<close> and the specifier does not start with \<^verbatim>\<open>@\<close>), the path is
  decided by the last entry of the merged alias table, in its iteration order, whose
  prefix starts the specifier: the specifier with that prefix replaced by the target,
  resolved under \<^verbatim>\<open>rootDir\<close>; with no such entry it is the specifier under
  \<^verbatim>\<open>rootDir/src\<close> (under \<^verbatim>\<open>rootDir\<close> when it starts with \<^verbatim>\<open>src\<close>). The merged table
  is the default \<^verbatim>\<open>{'@/': 'src/'}\<close> overridden by the caller's entries. With the
  aliases \<^verbatim>\<open>{'@/': 'src/', '@utils/': 'src/utils/'}\<close> the specifier \<^verbatim>\<open>@utils/foo\<close>
  gives \<^verbatim>\<open>/proj/src/utils/foo\<close>.
\<close>

theorem alias_substitution_last_match_wins:
  assumes "\<not> isRelative importPath"
    and "\<not> (includes_str fileDir ''config/config'' \<and> \<not> startsWith importPath ''@'')"
  shows "specifierPath E rootDir fileDir importPath importAlias =
           (case find (\<lambda>(alias, target). startsWith importPath alias) (rev (enableAlias importAlias)) of
              None \<Rightarrow>
                if startsWith importPath ''src'' then resolve (cwd E) [rootDir, importPath]
                else resolve (cwd E) [rootDir, ''src'', importPath]
            | Some (alias, target) \<Rightarrow> resolve (cwd E) [rootDir, replace importPath alias target]) \<and>
         map_of (enableAlias importAlias) =
           [''@/'' \<mapsto> ''src/''] ++ map_of (rev (case importAlias of None \<Rightarrow> [] | Some a \<Rightarrow> a)) \<and>
         specifierPath E ''/proj'' ''/proj/src/app.ts'' ''@utils/foo''
             (Some [(''@/'', ''src/''), (''@utils/'', ''src/utils/'')]) = ''/proj/src/utils/foo''"
proof (intro conjI)
  show "specifierPath E rootDir fileDir importPath importAlias =
           (case find (\<lambda>(alias, target). startsWith importPath alias) (rev (enableAlias importAlias)) of
              None \<Rightarrow>
                if startsWith importPath ''src'' then resolve (cwd E) [rootDir, importPath]
                else resolve (cwd E) [rootDir, ''src'', importPath]
            | Some (alias, target) \<Rightarrow> resolve (cwd E) [rootDir, replace importPath alias target])"
    using assms unfolding specifierPath_def
    by (simp only: if_False fold_last_match)
  show "map_of (enableAlias importAlias) =
           [''@/'' \<mapsto> ''src/''] ++ map_of (rev (case importAlias of None \<Rightarrow> [] | Some a \<Rightarrow> a))"
    by (simp add: enableAlias_def map_of_objSpread)
  show "specifierPath E ''/proj'' ''/proj/src/app.ts'' ''@utils/foo''
             (Some [(''@/'', ''src/''), (''@utils/'', ''src/utils/'')]) = ''/proj/src/utils/foo''"
    by (simp add: specifierPath_def includes_str_def startsWith_def isRelative_def
        enableAlias_def objSpread_def obj_defs replace_def resolve_def)
qed

theorem alias_substitution_last_match_wins_witness:
  "\<not> isRelative ''@utils/foo'' \<and>
   find (\<lambda>(alias, target). startsWith ''@utils/foo'' alias)
     (rev (enableAlias (Some [(''@/'', ''src/''), (''@utils/'', ''src/utils/'')])))
     = Some (''@utils/'', ''src/utils/'') \<and>
   specifierPath lockedEnv ''/proj'' ''/proj/src/app.ts'' ''@utils/foo''
     (Some [(''@/'', ''src/''), (''@utils/'', ''src/utils/'')]) = ''/proj/src/utils/foo''"
proof -
  have rel: "\<not> isRelative ''@utils/foo''"
    by (simp add: isRelative_def startsWith_def)
  have branch: "\<not> (includes_str ''/proj/src/app.ts'' ''config/config'' \<and> \<not> startsWith ''@utils/foo'' ''@'')"
    by (simp add: startsWith_def)
  have found: "find (\<lambda>(alias, target). startsWith ''@utils/foo'' alias)
     (rev (enableAlias (Some [(''@/'', ''src/''), (''@utils/'', ''src/utils/'')])))
     = Some (''@utils/'', ''src/utils/'')"
    by (simp add: enableAlias_def objSpread_def obj_defs startsWith_def)
  have "specifierPath lockedEnv ''/proj'' ''/proj/src/app.ts'' ''@utils/foo''
     (Some [(''@/'', ''src/''), (''@utils/'', ''src/utils/'')]) = ''/proj/src/utils/foo''"
    using alias_substitution_last_match_wins [OF rel branch, of lockedEnv "''/proj''"
        "Some [(''@/'', ''src/''), (''@utils/'', ''src/utils/'')]"]
    by blast
  with rel found show ?thesis by blast
qed

text \<open>
  Claim C3 as it was stated, for every specifier that is not relative, fails: when
  the importing file is \<^verbatim>\<open>/proj/config/config.ts\<close> the specifier \<^verbatim>\<open>utils/foo\<close> goes to
  \<^verbatim>\<open>/proj/src/pages/utils/foo\<close>, although the alias \<^verbatim>\<open>utils/\<close> starts it and would
  give \<^verbatim>\<open>/proj/src/utils/foo\<close>.
\<close>

theorem alias_substitution_skipped_for_routing_config:
  "\<not> isRelative ''utils/foo'' \<and> startsWith ''utils/foo'' ''utils/'' \<and>
   specifierPath lockedEnv ''/proj'' ''/proj/config/config.ts'' ''utils/foo''
     (Some [(''utils/'', ''src/utils/'')]) = ''/proj/src/pages/utils/foo'' \<and>
   probePath lockedEnv ''/proj'' ''/proj/config/config.ts'' ''utils/foo''
     (Some [(''utils/'', ''src/utils/'')]) = ''/proj/src/pages/utils/foo'' \<and>
   resolve (cwd lockedEnv) [''/proj'', replace ''utils/foo'' ''utils/'' ''src/utils/'']
     = ''/proj/src/utils/foo''"
  by (simp add: probePath_def specifierPath_def includes_str_def startsWith_def isRelative_def
      replace_def resolve_def isDirectory_def lockedEnv_def)

text \<open>
  Claim C4. For a relative specifier and a \<^verbatim>\<open>fileDir\<close> without the routing-configuration
  marker, the path before the directory rule and the probe is
  \<^verbatim>\<open>path.resolve(fileDir, '..', importPath)\<close>, which is the specifier resolved against
  the directory one level above \<^verbatim>\<open>fileDir\<close> and not against \<^verbatim>\<open>fileDir\<close> itself.
\<close>

theorem relative_specifier_resolved_above_fileDir:
  assumes "isRelative importPath"
    and "\<not> includes_str fileDir ''config/config''"
  shows "specifierPath E rootDir fileDir importPath importAlias =
           resolve (cwd E) [fileDir, ''..'', importPath] \<and>
         (absolute (cwd E) \<longrightarrow>
            specifierPath E rootDir fileDir importPath importAlias =
              resolve (cwd E) [resolve (cwd E) [fileDir, ''..''], importPath]) \<and>
         probePath E rootDir fileDir importPath importAlias =
           resolve (cwd E)
             [if isDirectory E (resolve (cwd E) [fileDir, ''..'', importPath])
              then resolve (cwd E) [resolve (cwd E) [fileDir, ''..'', importPath], ''index'']
              else resolve (cwd E) [fileDir, ''..'', importPath]]"
proof -
  have sp: "specifierPath E rootDir fileDir importPath importAlias =
           resolve (cwd E) [fileDir, ''..'', importPath]"
    using assms by (simp add: specifierPath_def)
  have "absolute (cwd E) \<Longrightarrow>
      resolve (cwd E) [fileDir, ''..'', importPath] =
        resolve (cwd E) [resolve (cwd E) [fileDir, ''..''], importPath]"
    using resolve_assoc [of "cwd E" "[fileDir, ''..'']" "[importPath]"] by simp
  moreover have "probePath E rootDir fileDir importPath importAlias =
           resolve (cwd E)
             [if isDirectory E (resolve (cwd E) [fileDir, ''..'', importPath])
              then resolve (cwd E) [resolve (cwd E) [fileDir, ''..'', importPath], ''index'']
              else resolve (cwd E) [fileDir, ''..'', importPath]]"
    unfolding probePath_def sp by (simp add: Let_def)
  ultimately show ?thesis
    using sp by simp
qed

theorem relative_specifier_resolved_above_fileDir_witness:
  "isRelative ''./routes'' \<and>
   specifierPath lockedEnv ''/proj'' ''/proj/src'' ''./routes'' None = ''/proj/routes'' \<and>
   resolve (cwd lockedEnv) [''/proj/src'', ''..''] = ''/proj'' \<and>
   resolve (cwd lockedEnv) [''/proj/src'', ''./routes''] = ''/proj/src/routes'' \<and>
   probePath lockedEnv ''/proj'' ''/proj/src'' ''./routes'' None = ''/proj/routes''"
proof -
  have rel: "isRelative ''./routes''"
    by (simp add: isRelative_def startsWith_def)
  have marker: "\<not> includes_str ''/proj/src'' ''config/config''"
    by (simp add: includes_str_def startsWith_def)
  note inst = relative_specifier_resolved_above_fileDir [OF rel marker, of lockedEnv "''/proj''" None]
  have r: "resolve (cwd lockedEnv) [''/proj/src'', ''..'', ''./routes''] = ''/proj/routes''"
    by (simp add: resolve_def)
  have nodir: "\<not> isDirectory lockedEnv ''/proj/routes''"
    by (simp add: isDirectory_def lockedEnv_def)
  have 1: "specifierPath lockedEnv ''/proj'' ''/proj/src'' ''./routes'' None = ''/proj/routes''"
    using inst r by simp
  have 2: "probePath lockedEnv ''/proj'' ''/proj/src'' ''./routes'' None = ''/proj/routes''"
    using inst nodir unfolding r by (simp add: resolve_def)
  have 3: "resolve (cwd lockedEnv) [''/proj/src'', ''..''] = ''/proj''"
    "resolve (cwd lockedEnv) [''/proj/src'', ''./routes''] = ''/proj/src/routes''"
    by (simp_all add: resolve_def)
  from rel 1 2 3 show ?thesis by blast
qed

lemma specifierPath_link:
  "specifierPath linkEnv ''/proj'' ''/proj/src/app.tsx'' ''components/Button'' None =
     ''/proj/src/components/Button''"
  by (simp add: specifierPath_def includes_str_def startsWith_def isRelative_def
      enableAlias_def objSpread_def obj_defs resolve_def)

lemma isDirectory_lstat: "isDirectory E p = (lstatSync E p = Inr Directory)"
  by (cases "lstatSync E p") (auto simp: isDirectory_def)

text \<open>
  Claim C7, as amended. When \<^verbatim>\<open>lstatSync\<close> reports the path computed from the specifier
  as a directory, \<^verbatim>\<open>index\<close> is appended to it and the probe runs on the result. When
  it reports anything else, a symbolic link to a directory included, or fails,
  nothing is appended and the probe runs on the path as it is.
\<close>

theorem directory_gets_index_before_probing:
  "(lstatSync E (specifierPath E rootDir fileDir importPath importAlias) = Inr Directory \<longrightarrow>
      getRealImportFilePath E rootDir fileDir importPath importAlias =
        existFileWithExtensions E
          (resolve (cwd E)
             [resolve (cwd E) [specifierPath E rootDir fileDir importPath importAlias, ''index'']])
          defaultExtensions \<and>
      (absolute (cwd E) \<longrightarrow>
         probePath E rootDir fileDir importPath importAlias =
           resolve (cwd E) [specifierPath E rootDir fileDir importPath importAlias, ''index''])) \<and>
   (lstatSync E (specifierPath E rootDir fileDir importPath importAlias) \<noteq> Inr Directory \<longrightarrow>
      probePath E rootDir fileDir importPath importAlias =
        resolve (cwd E) [specifierPath E rootDir fileDir importPath importAlias] \<and>
      getRealImportFilePath E rootDir fileDir importPath importAlias =
        existFileWithExtensions E
          (resolve (cwd E) [specifierPath E rootDir fileDir importPath importAlias])
          defaultExtensions)"
proof (intro conjI impI)
  let ?sp = "specifierPath E rootDir fileDir importPath importAlias"
  assume dir: "lstatSync E ?sp = Inr Directory"
  then have p: "probePath E rootDir fileDir importPath importAlias =
      resolve (cwd E) [resolve (cwd E) [?sp, ''index'']]"
    by (simp add: probePath_def Let_def isDirectory_lstat)
  show "getRealImportFilePath E rootDir fileDir importPath importAlias =
      existFileWithExtensions E (resolve (cwd E) [resolve (cwd E) [?sp, ''index'']]) defaultExtensions"
    by (simp add: getRealImportFilePath_def p)
  assume "absolute (cwd E)"
  then have "resolve (cwd E) [resolve (cwd E) [?sp, ''index'']] = resolve (cwd E) [?sp, ''index'']"
    using resolve_assoc [of "cwd E" "[?sp, ''index'']" "[]"] by simp
  with p show "probePath E rootDir fileDir importPath importAlias = resolve (cwd E) [?sp, ''index'']"
    by simp
next
  let ?sp = "specifierPath E rootDir fileDir importPath importAlias"
  assume nodir: "lstatSync E ?sp \<noteq> Inr Directory"
  then show p: "probePath E rootDir fileDir importPath importAlias = resolve (cwd E) [?sp]"
    by (simp add: probePath_def Let_def isDirectory_lstat)
  show "getRealImportFilePath E rootDir fileDir importPath importAlias =
      existFileWithExtensions E (resolve (cwd E) [?sp]) defaultExtensions"
    by (simp add: getRealImportFilePath_def p)
qed

theorem directory_gets_index_before_probing_witness:
  "lstatSync buttonEnv (specifierPath buttonEnv ''/proj'' ''/proj/src/app.tsx'' ''components/Button'' None)
     = Inr Directory \<and>
   getRealImportFilePath buttonEnv ''/proj'' ''/proj/src/app.tsx'' ''components/Button'' None =
     Inr ''/proj/src/components/Button/index.tsx'' \<and>
   lstatSync linkEnv (specifierPath linkEnv ''/proj'' ''/proj/src/app.tsx'' ''components/Button'' None)
     = Inr SymbolicLink \<and>
   probePath linkEnv ''/proj'' ''/proj/src/app.tsx'' ''components/Button'' None =
     ''/proj/src/components/Button''"
proof -
  let ?sp = "specifierPath buttonEnv ''/proj'' ''/proj/src/app.tsx'' ''components/Button'' None"
  let ?lp = "specifierPath linkEnv ''/proj'' ''/proj/src/app.tsx'' ''components/Button'' None"
  have dir: "lstatSync buttonEnv ?sp = Inr Directory"
    unfolding specifierPath_button by (simp add: buttonEnv_def mkEnv_def)
  have idx: "resolve (cwd buttonEnv) [resolve (cwd buttonEnv) [?sp, ''index'']] =
      ''/proj/src/components/Button/index''"
    unfolding specifierPath_button by (simp add: resolve_def)
  have probe: "existFileWithExtensions buttonEnv ''/proj/src/components/Button/index'' defaultExtensions =
      Inr ''/proj/src/components/Button/index.tsx''"
    by (simp add: defaultExtensions_def candidatePath_def includes_str_def startsWith_def
        buttonEnv_def mkEnv_def)
  have found: "getRealImportFilePath buttonEnv ''/proj'' ''/proj/src/app.tsx'' ''components/Button'' None =
     Inr ''/proj/src/components/Button/index.tsx''"
    using directory_gets_index_before_probing
      [of buttonEnv "''/proj''" "''/proj/src/app.tsx''" "''components/Button''" None] dir
    unfolding idx probe by blast
  have link: "lstatSync linkEnv ?lp = Inr SymbolicLink"
    unfolding specifierPath_link by (simp add: linkEnv_def)
  then have nodir: "lstatSync linkEnv ?lp \<noteq> Inr Directory"
    by simp
  have same: "resolve (cwd linkEnv) [?lp] = ''/proj/src/components/Button''"
    unfolding specifierPath_link by (simp add: resolve_def)
  have kept: "probePath linkEnv ''/proj'' ''/proj/src/app.tsx'' ''components/Button'' None =
     ''/proj/src/components/Button''"
    using directory_gets_index_before_probing
      [of linkEnv "''/proj''" "''/proj/src/app.tsx''" "''components/Button''" None] nodir
    unfolding same by blast
  from dir found link kept show ?thesis by blast
qed

text \<open>
  Claim C7 as it was stated fails for a path that denotes a directory through a
  symbolic link: \<^verbatim>\<open>/proj/src/components/Button\<close> lists as a directory and holds
  \<^verbatim>\<open>index.tsx\<close>, but \<^verbatim>\<open>lstatSync\<close> reports the link, no \<^verbatim>\<open>index\<close> is appended, no
  candidate \<^verbatim>\<open>Button.js\<close>, ..., \<^verbatim>\<open>Buttontxt\<close> exists, and the result is the empty string.
\<close>

theorem symbolic_link_to_directory_gets_no_index:
  "specifierPath linkEnv ''/proj'' ''/proj/src/app.tsx'' ''components/Button'' None =
     ''/proj/src/components/Button'' \<and>
   lstatSync linkEnv ''/proj/src/components/Button'' = Inr SymbolicLink \<and>
   readdirSync linkEnv ''/proj/src/components/Button'' = Inr [''index.tsx''] \<and>
   access linkEnv ''/proj/src/components/Button/index.tsx'' = Inr () \<and>
   probePath linkEnv ''/proj'' ''/proj/src/app.tsx'' ''components/Button'' None =
     ''/proj/src/components/Button'' \<and>
   getRealImportFilePath linkEnv ''/proj'' ''/proj/src/app.tsx'' ''components/Button'' None = Inr []"
proof -
  have fs: "lstatSync linkEnv ''/proj/src/components/Button'' = Inr SymbolicLink"
    "readdirSync linkEnv ''/proj/src/components/Button'' = Inr [''index.tsx'']"
    "access linkEnv ''/proj/src/components/Button/index.tsx'' = Inr ()"
    by (simp_all add: linkEnv_def)
  have p: "probePath linkEnv ''/proj'' ''/proj/src/app.tsx'' ''components/Button'' None =
     ''/proj/src/components/Button''"
    unfolding probePath_def specifierPath_link
    by (simp add: isDirectory_def fs(1)) (simp add: resolve_def)
  have g: "getRealImportFilePath linkEnv ''/proj'' ''/proj/src/app.tsx'' ''components/Button'' None = Inr []"
    unfolding getRealImportFilePath_def p
    by (simp add: defaultExtensions_def candidatePath_def includes_str_def startsWith_def linkEnv_def)
  from specifierPath_link fs p g show ?thesis by blast
qed

section \<open>Locating the application root\<close>

lemma getAppRootDir_found:
  assumes "readdirSync E (resolve (cwd E) [p, ''..'']) = Inr files" and "''package.json'' \<in> set files"
  shows "getAppRootDir E p = Some (Inr (resolve (cwd E) [p, ''..'']))"
  using assms by (subst getAppRootDir.simps) simp

lemma getAppRootDir_up:
  assumes "readdirSync E (resolve (cwd E) [p, ''..'']) = Inr files" and "''package.json'' \<notin> set files"
  shows "getAppRootDir E p = getAppRootDir E (resolve (cwd E) [p, ''..''])"
  using assms by (subst getAppRootDir.simps) simp

lemma getAppRootDir_throws:
  assumes "readdirSync E (resolve (cwd E) [p, ''..'']) = Inl err"
  shows "getAppRootDir E p = Some (Inl err)"
  using assms by (subst getAppRootDir.simps) simp

lemma getAppRootDir_terminates:
  assumes "readdirSync E (ancestor E (Suc k) p) = Inr files" and "''package.json'' \<in> set files"
  shows "\<exists>r. getAppRootDir E p = Some r"
  using assms
proof (induction k arbitrary: p)
  case 0
  then show ?case by (simp add: getAppRootDir_found)
next
  case (Suc k)
  let ?parent = "resolve (cwd E) [p, ''..'']"
  show ?case
  proof (cases "readdirSync E ?parent")
    case (Inl err)
    then show ?thesis by (simp add: getAppRootDir_throws)
  next
    case (Inr fs)
    show ?thesis
    proof (cases "''package.json'' \<in> set fs")
      case True
      with Inr show ?thesis by (simp add: getAppRootDir_found)
    next
      case False
      have "\<exists>r. getAppRootDir E ?parent = Some r"
        using Suc.IH [of ?parent] Suc.prems by simp
      then show ?thesis by (simp add: getAppRootDir_up [OF Inr False])
    qed
  qed
qed

lemma getAppRootDir_nearest:
  assumes "\<forall>j. 0 < j \<and> j < Suc k \<longrightarrow>
             (\<exists>fs. readdirSync E (ancestor E j p) = Inr fs \<and> ''package.json'' \<notin> set fs)"
    and "readdirSync E (ancestor E (Suc k) p) = Inr files" and "''package.json'' \<in> set files"
  shows "getAppRootDir E p = Some (Inr (ancestor E (Suc k) p))"
  using assms
proof (induction k arbitrary: p)
  case 0
  then show ?case by (simp add: getAppRootDir_found)
next
  case (Suc k)
  let ?parent = "resolve (cwd E) [p, ''..'']"
  obtain fs where fs: "readdirSync E ?parent = Inr fs" "''package.json'' \<notin> set fs"
    using Suc.prems(1) [rule_format, of 1] by auto
  have below: "\<forall>j. 0 < j \<and> j < Suc k \<longrightarrow>
      (\<exists>fs. readdirSync E (ancestor E j ?parent) = Inr fs \<and> ''package.json'' \<notin> set fs)"
  proof (intro allI impI)
    fix j assume "0 < j \<and> j < Suc k"
    then show "\<exists>fs. readdirSync E (ancestor E j ?parent) = Inr fs \<and> ''package.json'' \<notin> set fs"
      using Suc.prems(1) [rule_format, of "Suc j"] by simp
  qed
  have "getAppRootDir E ?parent = Some (Inr (ancestor E (Suc k) ?parent))"
    using Suc.IH [OF below] Suc.prems(2,3) by simp
  then show ?case by (simp add: getAppRootDir_up [OF fs])
qed

lemma getAppRootDir_throws_at:
  assumes "\<forall>j. 0 < j \<and> j < Suc k \<longrightarrow>
             (\<exists>fs. readdirSync E (ancestor E j p) = Inr fs \<and> ''package.json'' \<notin> set fs)"
    and "readdirSync E (ancestor E (Suc k) p) = Inl err"
  shows "getAppRootDir E p = Some (Inl err)"
  using assms
proof (induction k arbitrary: p)
  case 0
  then show ?case by (simp add: getAppRootDir_throws)
next
  case (Suc k)
  let ?parent = "resolve (cwd E) [p, ''..'']"
  obtain fs where fs: "readdirSync E ?parent = Inr fs" "''package.json'' \<notin> set fs"
    using Suc.prems(1) [rule_format, of 1] by auto
  have below: "\<forall>j. 0 < j \<and> j < Suc k \<longrightarrow>
      (\<exists>fs. readdirSync E (ancestor E j ?parent) = Inr fs \<and> ''package.json'' \<notin> set fs)"
  proof (intro allI impI)
    fix j assume "0 < j \<and> j < Suc k"
    then show "\<exists>fs. readdirSync E (ancestor E j ?parent) = Inr fs \<and> ''package.json'' \<notin> set fs"
      using Suc.prems(1) [rule_format, of "Suc j"] by simp
  qed
  have "getAppRootDir E ?parent = Some (Inl err)"
    using Suc.IH [OF below] Suc.prems(2) by simp
  then show ?case by (simp add: getAppRootDir_up [OF fs])
qed

text \<open>
  The walk stops at the first directory above \<^verbatim>\<open>p\<close> that is not a listable directory
  without an entry \<^verbatim>\<open>package.json\<close>: it returns that directory when the entry is
  there, and throws the error of \<^verbatim>\<open>readdirSync\<close> when the directory cannot be listed.
\<close>

lemma getAppRootDir_first_stop:
  assumes "0 < k"
    and "readdirSync E (ancestor E k p) = Inr files" and "''package.json'' \<in> set files"
  shows "\<exists>j. 0 < j \<and> j \<le> k \<and>
           (\<forall>i. 0 < i \<and> i < j \<longrightarrow>
              (\<exists>fs. readdirSync E (ancestor E i p) = Inr fs \<and> ''package.json'' \<notin> set fs)) \<and>
           ((\<exists>fs. readdirSync E (ancestor E j p) = Inr fs \<and> ''package.json'' \<in> set fs \<and>
                  getAppRootDir E p = Some (Inr (ancestor E j p))) \<or>
            (\<exists>err. readdirSync E (ancestor E j p) = Inl err \<and>
                   getAppRootDir E p = Some (Inl err)))"
proof -
  define stop where "stop j \<longleftrightarrow> 0 < j \<and>
      \<not> (\<exists>fs. readdirSync E (ancestor E j p) = Inr fs \<and> ''package.json'' \<notin> set fs)" for j
  have "stop k"
    using assms by (simp add: stop_def)
  define j where "j = (LEAST j. stop j)"
  have sj: "stop j"
    unfolding j_def using \<open>stop k\<close> by (rule LeastI)
  have jk: "j \<le> k"
    unfolding j_def using \<open>stop k\<close> by (rule Least_le)
  have least: "\<not> stop i" if "i < j" for i
    using that not_less_Least unfolding j_def by blast
  have nearer: "\<forall>i. 0 < i \<and> i < j \<longrightarrow>
      (\<exists>fs. readdirSync E (ancestor E i p) = Inr fs \<and> ''package.json'' \<notin> set fs)"
    using least by (auto simp: stop_def)
  from sj obtain j' where j': "j = Suc j'"
    by (cases j) (simp_all add: stop_def)
  show ?thesis
  proof (cases "readdirSync E (ancestor E j p)")
    case (Inl err)
    have "getAppRootDir E p = Some (Inl err)"
      using getAppRootDir_throws_at [of j' E p err] nearer Inl unfolding j' by blast
    with Inl nearer sj jk show ?thesis
      unfolding stop_def by blast
  next
    case (Inr fs)
    with sj have mem: "''package.json'' \<in> set fs"
      by (auto simp: stop_def)
    have "getAppRootDir E p = Some (Inr (ancestor E j p))"
      using getAppRootDir_nearest [of j' E p fs] nearer Inr mem unfolding j' by blast
    with Inr mem nearer sj jk show ?thesis
      unfolding stop_def by blast
  qed
qed

text \<open>
  Claim C8, as amended. When the \<open>k\<close>-th directory above \<^verbatim>\<open>startPath\<close> lists an entry
  named \<^verbatim>\<open>package.json\<close>, of whatever kind, \<^verbatim>\<open>getAppRootDir\<close> ends. The parent is looked
  at first, then one directory further up at a time, and the walk stops at the first
  directory that lists such an entry, which is returned, or that cannot be listed,
  whose \<^verbatim>\<open>readdirSync\<close> error is thrown. So the \<open>k\<close>-th directory is returned when the
  directories nearer to \<^verbatim>\<open>startPath\<close> can be listed and hold no such entry.
\<close>

theorem getAppRootDir_returns_nearest_manifest_dir:
  assumes "0 < k"
    and "readdirSync E (ancestor E k startPath) = Inr files"
    and "''package.json'' \<in> set files"
  shows "(\<exists>r. getAppRootDir E startPath = Some r) \<and>
         ((\<forall>j. 0 < j \<and> j < k \<longrightarrow>
             (\<exists>fs. readdirSync E (ancestor E j startPath) = Inr fs \<and> ''package.json'' \<notin> set fs))
          \<longrightarrow> getAppRootDir E startPath = Some (Inr (ancestor E k startPath))) \<and>
         (\<exists>j. 0 < j \<and> j \<le> k \<and>
            (\<forall>i. 0 < i \<and> i < j \<longrightarrow>
               (\<exists>fs. readdirSync E (ancestor E i startPath) = Inr fs \<and> ''package.json'' \<notin> set fs)) \<and>
            ((\<exists>fs. readdirSync E (ancestor E j startPath) = Inr fs \<and> ''package.json'' \<in> set fs \<and>
                   getAppRootDir E startPath = Some (Inr (ancestor E j startPath))) \<or>
             (\<exists>err. readdirSync E (ancestor E j startPath) = Inl err \<and>
                    getAppRootDir E startPath = Some (Inl err))))"
proof -
  obtain k' where k: "k = Suc k'"
    using assms(1) by (cases k) simp_all
  have "\<exists>r. getAppRootDir E startPath = Some r"
    using getAppRootDir_terminates [of E k' startPath files] assms(2,3) unfolding k by blast
  moreover have "(\<forall>j. 0 < j \<and> j < k \<longrightarrow>
        (\<exists>fs. readdirSync E (ancestor E j startPath) = Inr fs \<and> ''package.json'' \<notin> set fs))
      \<longrightarrow> getAppRootDir E startPath = Some (Inr (ancestor E k startPath))"
    using getAppRootDir_nearest [of k' E startPath files] assms(2,3) unfolding k by blast
  ultimately show ?thesis
    using getAppRootDir_first_stop [OF assms] by blast
qed

theorem getAppRootDir_returns_nearest_manifest_dir_witness:
  "ancestor repoEnv (Suc (Suc (Suc 0))) ''/repo/app/config/routes.ts'' = ''/repo'' \<and>
   readdirSync repoEnv ''/repo'' = Inr [''app'', ''package.json''] \<and>
   readdirSync repoEnv (ancestor repoEnv (Suc 0) ''/repo/app/config/routes.ts'') = Inr [''routes.ts''] \<and>
   readdirSync repoEnv (ancestor repoEnv (Suc (Suc 0)) ''/repo/app/config/routes.ts'') = Inr [''config''] \<and>
   getAppRootDir repoEnv ''/repo/app/config/routes.ts'' = Some (Inr ''/repo'')"
proof -
  let ?p = "''/repo/app/config/routes.ts''"
  have wd: "cwd repoEnv = ''/''"
    by (simp add: repoEnv_def mkEnv_def)
  have a1: "ancestor repoEnv (Suc 0) ?p = ''/repo/app/config''"
    by (simp add: wd resolve_def)
  have a2: "ancestor repoEnv (Suc (Suc 0)) ?p = ''/repo/app''"
    by (simp add: wd resolve_def)
  have a3: "ancestor repoEnv (Suc (Suc (Suc 0))) ?p = ''/repo''"
    by (simp add: wd resolve_def)
  have l1: "readdirSync repoEnv ''/repo/app/config'' = Inr [''routes.ts'']"
    and l2: "readdirSync repoEnv ''/repo/app'' = Inr [''config'']"
    and l3: "readdirSync repoEnv ''/repo'' = Inr [''app'', ''package.json'']"
    by (simp_all add: repoEnv_def mkEnv_def)
  have nearer: "\<forall>j. 0 < j \<and> j < Suc (Suc (Suc 0)) \<longrightarrow>
      (\<exists>fs. readdirSync repoEnv (ancestor repoEnv j ?p) = Inr fs \<and> ''package.json'' \<notin> set fs)"
  proof (intro allI impI)
    fix j :: nat assume "0 < j \<and> j < Suc (Suc (Suc 0))"
    then have "j = Suc 0 \<or> j = Suc (Suc 0)" by arith
    then show "\<exists>fs. readdirSync repoEnv (ancestor repoEnv j ?p) = Inr fs \<and> ''package.json'' \<notin> set fs"
      using a1 a2 l1 l2 by auto
  qed
  have l3': "readdirSync repoEnv (ancestor repoEnv (Suc (Suc (Suc 0))) ?p) = Inr [''app'', ''package.json'']"
    unfolding a3 by (rule l3)
  have "getAppRootDir repoEnv ?p = Some (Inr (ancestor repoEnv (Suc (Suc (Suc 0))) ?p))"
    using getAppRootDir_returns_nearest_manifest_dir
      [of "Suc (Suc (Suc 0))" repoEnv ?p "[''app'', ''package.json'']"] nearer l3'
    by simp
  then have root: "getAppRootDir repoEnv ?p = Some (Inr ''/repo'')"
    unfolding a3 .
  have r1: "readdirSync repoEnv (ancestor repoEnv (Suc 0) ?p) = Inr [''routes.ts'']"
    unfolding a1 by (rule l1)
  have r2: "readdirSync repoEnv (ancestor repoEnv (Suc (Suc 0)) ?p) = Inr [''config'']"
    unfolding a2 by (rule l2)
  from a3 l3 r1 r2 root show ?thesis by blast
qed

text \<open>
  Claim C8 as it was stated fails in two ways. In the first repository \<^verbatim>\<open>/repo\<close> is the
  only directory above \<^verbatim>\<open>routes.ts\<close> that contains a file named \<^verbatim>\<open>package.json\<close>, but
  \<^verbatim>\<open>/repo/app\<close> contains a directory of that name and is returned. In the second
  \<^verbatim>\<open>/repo\<close> contains the file, but the parent of \<^verbatim>\<open>routes.ts\<close> cannot be listed and the
  call throws.
\<close>

theorem getAppRootDir_stops_before_nearest_manifest_file:
  "lstatSync nestedRepoEnv ''/repo/package.json'' = Inr RegularFile \<and>
   lstatSync nestedRepoEnv ''/repo/app/package.json'' = Inr Directory \<and>
   readdirSync nestedRepoEnv ''/repo/app/config'' = Inr [''routes.ts''] \<and>
   getAppRootDir nestedRepoEnv ''/repo/app/config/routes.ts'' = Some (Inr ''/repo/app'') \<and>
   lstatSync privateRepoEnv ''/repo/package.json'' = Inr RegularFile \<and>
   lstatSync privateRepoEnv ''/repo/app/config'' = Inr Directory \<and>
   readdirSync privateRepoEnv ''/repo'' = Inr [''app'', ''package.json''] \<and>
   getAppRootDir privateRepoEnv ''/repo/app/config/routes.ts'' = Some (Inl (SystemError ''EACCES''))"
proof -
  have n1: "lstatSync nestedRepoEnv ''/repo/package.json'' = Inr RegularFile"
    and n2: "lstatSync nestedRepoEnv ''/repo/app/package.json'' = Inr Directory"
    and n3: "readdirSync nestedRepoEnv ''/repo/app/config'' = Inr [''routes.ts'']"
    and n4: "readdirSync nestedRepoEnv ''/repo/app'' = Inr [''config'', ''package.json'']"
    and nwd: "cwd nestedRepoEnv = ''/''"
    by (simp_all add: nestedRepoEnv_def mkEnv_def)
  have up1: "resolve ''/'' [''/repo/app/config/routes.ts'', ''..''] = ''/repo/app/config''"
    and up2: "resolve ''/'' [''/repo/app/config'', ''..''] = ''/repo/app''"
    by (simp_all add: resolve_def)
  have "getAppRootDir nestedRepoEnv ''/repo/app/config/routes.ts'' =
      getAppRootDir nestedRepoEnv ''/repo/app/config''"
    using getAppRootDir_up [of nestedRepoEnv "''/repo/app/config/routes.ts''" "[''routes.ts'']"]
    by (simp add: nwd up1 n3)
  also have "\<dots> = Some (Inr ''/repo/app'')"
    using getAppRootDir_found [of nestedRepoEnv "''/repo/app/config''" "[''config'', ''package.json'']"]
    by (simp add: nwd up2 n4)
  finally have n5: "getAppRootDir nestedRepoEnv ''/repo/app/config/routes.ts'' = Some (Inr ''/repo/app'')" .
  have p1: "lstatSync privateRepoEnv ''/repo/package.json'' = Inr RegularFile"
    and p2: "lstatSync privateRepoEnv ''/repo/app/config'' = Inr Directory"
    and p3: "readdirSync privateRepoEnv ''/repo'' = Inr [''app'', ''package.json'']"
    and p4: "readdirSync privateRepoEnv ''/repo/app/config'' = Inl (SystemError ''EACCES'')"
    and pwd: "cwd privateRepoEnv = ''/''"
    by (simp_all add: privateRepoEnv_def repoEnv_def mkEnv_def)
  have p5: "getAppRootDir privateRepoEnv ''/repo/app/config/routes.ts'' = Some (Inl (SystemError ''EACCES''))"
    using getAppRootDir_throws [of privateRepoEnv "''/repo/app/config/routes.ts''" "SystemError ''EACCES''"]
    by (simp add: pwd up1 p4)
  from n1 n2 n3 n5 p1 p2 p3 p5 show ?thesis by blast
qed

section \<open>Extraction\<close>








text \<open>The definitions that evaluate the analysis on a concrete file system.\<close>

lemmas eval_defs =
  analyzeImports_def transformToAST_def realPathOf_def traverse_def
  visitSpecifier_def objAssign_def obj_defs
  absoluteSource_def isDirectory_def isRelative_def startsWith_def endsWith_def
  lastIndexOf_def slice_def replace_def resolve_def dirname_def extensions_def
  mkEnv_def importDefault_def includes_str_def leaf_def










lemma absoluteSource_throws:
  "absoluteSource E filePath filter_fn src = Inl err \<Longrightarrow>
   \<not> isRelative src \<and> filterThrows filter_fn src err"
  by (auto simp: absoluteSource_def filterThrows_def split: if_splits option.splits sum.splits)






lemma visitSpecifier_throws:
  assumes "visitSpecifier E filePath filter_fn parentNode spec result = Inl err"
  shows "\<not> isRelative (decl_source parentNode) \<and> filterThrows filter_fn (decl_source parentNode) err"
proof (cases "absoluteSource E filePath filter_fn (decl_source parentNode)")
  case (Inl e)
  then have "e = err"
    using assms by (simp add: visitSpecifier_def)
  then show ?thesis
    using absoluteSource_throws [OF Inl] by simp
next
  case (Inr a)
  then show ?thesis
    using assms by (cases a) (simp_all add: visitSpecifier_def split: if_splits)
qed

















text \<open>The visitors throw only what the filter throws, for a source that is not relative.\<close>

lemma visitSpecifiers_throws:
  assumes "visitSpecifiers E filePath filter_fn parentNode specs acc = Inl err"
  shows "\<not> isRelative (decl_source parentNode) \<and> filterThrows filter_fn (decl_source parentNode) err"
  using assms
proof (induction specs arbitrary: acc)
  case Nil
  then show ?case by simp
next
  case (Cons spec specs)
  show ?case
  proof (cases "visitSpecifier E filePath filter_fn parentNode spec acc")
    case (Inl e)
    then have "e = err"
      using Cons.prems by simp
    then show ?thesis
      using visitSpecifier_throws [OF Inl] by simp
  next
    case (Inr r')
    then show ?thesis
      using Cons.prems Cons.IH [of r'] by simp
  qed
qed

lemma visitImports_throws:
  assumes "visitImports E filePath filter_fn decls acc = Inl err"
  shows "\<exists>d \<in> set decls. \<not> isRelative (decl_source d) \<and> filterThrows filter_fn (decl_source d) err"
  using assms
proof (induction decls arbitrary: acc)
  case Nil
  then show ?case by simp
next
  case (Cons d decls)
  show ?case
  proof (cases "visitSpecifiers E filePath filter_fn d (specifiers d) acc")
    case (Inl e)
    then have "e = err"
      using Cons.prems by simp
    then show ?thesis
      using visitSpecifiers_throws [OF Inl] by simp
  next
    case (Inr r')
    then show ?thesis
      using Cons.prems Cons.IH [of r'] by simp
  qed
qed

lemma analyzeImports_parsed:
  assumes "transformToAST E filePath = Inr (Some ast)"
  shows "analyzeImports E filePath filter_fn =
           (case scopeError ast of
              Some err \<Rightarrow> Inl err
            | None \<Rightarrow> visitImports E filePath filter_fn (importDeclarations ast) [])"
  by (simp add: analyzeImports_def assms traverse_def)



lemma filter_entry_imports_unfiltered: "analyzeImports filterEnv ''/proj/entry.ts'' None =
    Inr [(''a'', \<lparr>id_str = ''/proj/a'', source = ''./a'', importKind = Some ValueImport,
                  exportName = Some ''default''\<rparr>),
         (''lodash'', \<lparr>id_str = ''lodash'', source = ''lodash'', importKind = Some ValueImport,
                  exportName = Some ''default''\<rparr>)]"
  by (simp add: filterEnv_def eval_defs)



section \<open>The dependency graph\<close>

text \<open>
  What extraction lets through: reading and parsing fail inside the \<^verbatim>\<open>try\<close> of
  \<^verbatim>\<open>transformToAST\<close>, so the errors that leave \<^verbatim>\<open>analyzeImports\<close> are that of listing
  a directory, that of traversing a parsed tree, and what the filter throws in a
  visitor.
\<close>

lemma realPathOf_throws:
  "realPathOf E filePath = Inl err \<Longrightarrow> isDirectory E filePath \<and> readdirSync E filePath = Inl err"
  by (auto simp: realPathOf_def Let_def split: if_splits sum.splits)

lemma transformToAST_throws:
  "transformToAST E filePath = Inl err \<Longrightarrow> isDirectory E filePath \<and> readdirSync E filePath = Inl err"
  using realPathOf_throws [of E filePath err]
  by (auto simp: transformToAST_def split: sum.splits option.splits if_splits)

lemma analyzeImports_throws:
  assumes "analyzeImports E filePath filter_fn = Inl err"
  shows "(isDirectory E filePath \<and> readdirSync E filePath = Inl err) \<or>
         (\<exists>ast. transformToAST E filePath = Inr (Some ast) \<and>
                (scopeError ast = Some err \<or>
                 (\<exists>d \<in> set (importDeclarations ast).
                    \<not> isRelative (decl_source d) \<and> filterThrows filter_fn (decl_source d) err)))"
proof (cases "transformToAST E filePath")
  case (Inl e)
  then show ?thesis
    using assms transformToAST_throws [of E filePath e] by (simp add: analyzeImports_def)
next
  case (Inr r)
  show ?thesis
  proof (cases r)
    case None
    then show ?thesis
      using assms Inr by (simp add: analyzeImports_def)
  next
    case (Some ast)
    have tree: "transformToAST E filePath = Inr (Some ast)"
      using Inr Some by simp
    show ?thesis
    proof (cases "scopeError ast")
      case quiet: None
      then have "visitImports E filePath filter_fn (importDeclarations ast) [] = Inl err"
        using assms by (simp add: analyzeImports_parsed [OF tree])
      then show ?thesis
        using visitImports_throws [of E filePath filter_fn "importDeclarations ast" "[]" err] tree
        by blast
    next
      case (Some e)
      then have "e = err"
        using assms by (simp add: analyzeImports_parsed [OF tree])
      then show ?thesis
        using tree Some by blast
    qed
  qed
qed

lemma deepCollect_throws:
  "deepCollect depth E filter_fn lastDeps parentIds = Some (Inl err) \<Longrightarrow>
     \<exists>p. analyzeImports E p filter_fn = Inl err"
proof (induction depth E filter_fn lastDeps parentIds rule: deepCollect.induct)
  case (1 depth E filter_fn parentIds)
  then show ?case by simp
next
  case (2 depth E filter_fn key dep rest parentIds)
  show ?case
  proof (cases "isRelative (source (info dep)) \<and> \<not> endsWith (id_str (info dep)) ''.json''")
    case False
    then show ?thesis
      using "2.prems" "2.IH"(2) [of "Some (Inr dep)" "Inr dep" dep]
      by (auto split: option.splits sum.splits)
  next
    case True
    show ?thesis
    proof (cases "analyzeImports E (id_str (info dep)) filter_fn")
      case (Inl e)
      then show ?thesis
        using True "2.prems" by auto
    next
      case (Inr innerDeps)
      show ?thesis
      proof (cases "\<exists>i \<in> set (map snd innerDeps). id_str i \<in> set parentIds")
        case guard: True
        then show ?thesis
          using True Inr "2.prems" "2.IH"(2) [of "Some (Inr dep)" "Inr dep" dep]
          by (auto split: option.splits sum.splits)
      next
        case noguard: False
        show ?thesis
        proof (cases depth)
          case 0
          then show ?thesis
            using True Inr noguard "2.prems" by auto
        next
          case (Suc d)
          let ?inner = "deepCollect d E filter_fn (map leaf innerDeps) (parentIds @ [id_str (info dep)])"
          show ?thesis
          proof (cases ?inner)
            case None
            then show ?thesis
              using True Inr noguard Suc "2.prems" by auto
          next
            case (Some r)
            show ?thesis
            proof (cases r)
              case inl: (Inl e)
              have "e = err"
                using True Inr noguard Suc Some inl "2.prems" by auto
              then show ?thesis
                using "2.IH"(1) [OF True Inr _ Suc] noguard Some inl by auto
            next
              case inr: (Inr deps)
              let ?dep' = "ImportMapWithDeps (info dep) (Some deps)"
              have "deepCollect depth E filter_fn rest parentIds = Some (Inl err)"
                using True Inr noguard Suc Some inr "2.prems"
                by (auto split: option.splits sum.splits)
              then show ?thesis
                using "2.IH"(2) [of "Some (Inr ?dep')" "Inr ?dep'" ?dep'] True Inr noguard Suc Some inr
                by auto
            qed
          qed
        qed
      qed
    qed
  qed
qed

lemma deepCollect_keep:
  assumes "\<not> expandable (info dep) \<or>
           (\<exists>inner. analyzeImports E (id_str (info dep)) filter_fn = Inr inner \<and>
                    (\<exists>i \<in> set (map snd inner). id_str i \<in> set parentIds))"
  shows "deepCollect depth E filter_fn ((key, dep) # rest) parentIds =
           (case deepCollect depth E filter_fn rest parentIds of
              None \<Rightarrow> None
            | Some (Inl err) \<Rightarrow> Some (Inl err)
            | Some (Inr rest') \<Rightarrow> Some (Inr ((key, dep) # rest')))"
proof (cases "expandable (info dep)")
  case False
  then show ?thesis
    unfolding expandable_def
    by (cases "isRelative (source (info dep))"; cases "endsWith (id_str (info dep)) ''.json''")
      simp_all
next
  case True
  then have c: "isRelative (source (info dep)) \<and> \<not> endsWith (id_str (info dep)) ''.json''"
    by (simp add: expandable_def)
  from True assms obtain inner where
    a: "analyzeImports E (id_str (info dep)) filter_fn = Inr inner" and
    g: "\<exists>i \<in> set (map snd inner). id_str i \<in> set parentIds"
    by blast
  show ?thesis
    using c a g by simp
qed

lemma deepCollect_expand:
  assumes "expandable (info dep)"
    and "analyzeImports E (id_str (info dep)) filter_fn = Inr inner"
    and "\<not> (\<exists>i \<in> set (map snd inner). id_str i \<in> set parentIds)"
    and "deepCollect depth E filter_fn (map leaf inner) (parentIds @ [id_str (info dep)]) = Some (Inr deps)"
  shows "deepCollect (Suc depth) E filter_fn ((key, dep) # rest) parentIds =
           (case deepCollect (Suc depth) E filter_fn rest parentIds of
              None \<Rightarrow> None
            | Some (Inl err) \<Rightarrow> Some (Inl err)
            | Some (Inr rest') \<Rightarrow> Some (Inr ((key, ImportMapWithDeps (info dep) (Some deps)) # rest')))"
proof -
  have c: "isRelative (source (info dep)) \<and> \<not> endsWith (id_str (info dep)) ''.json''"
    using assms(1) by (simp add: expandable_def)
  show ?thesis
    using c assms(2,3,4) by simp
qed

lemma deepCollect_all_leaves:
  assumes "\<forall>d \<in> snd ` set m. expandable d \<longrightarrow>
             (\<exists>inner. analyzeImports E (id_str d) filter_fn = Inr inner \<and>
                      (\<exists>i \<in> set (map snd inner). id_str i \<in> set parentIds))"
  shows "deepCollect depth E filter_fn (map leaf m) parentIds = Some (Inr (map leaf m))"
  using assms
proof (induction m)
  case Nil
  then show ?case by simp
next
  case (Cons kd m)
  obtain k d where kd: "kd = (k, d)" by (cases kd)
  have keep: "\<not> expandable (info (ImportMapWithDeps d None)) \<or>
           (\<exists>inner. analyzeImports E (id_str (info (ImportMapWithDeps d None))) filter_fn = Inr inner \<and>
                    (\<exists>i \<in> set (map snd inner). id_str i \<in> set parentIds))"
    using Cons.prems by (auto simp: kd)
  have rest: "deepCollect depth E filter_fn (map leaf m) parentIds = Some (Inr (map leaf m))"
    using Cons by simp
  show ?case
    unfolding kd list.map leaf_def fst_conv snd_conv
    by (subst deepCollect_keep [OF keep]) (simp add: rest [unfolded leaf_def])
qed

lemma leaf_pair: "leaf (k, d) = (k, ImportMapWithDeps d None)"
  by (simp add: leaf_def)

lemma attach_pair:
  "attach deps (k, d) = (k, ImportMapWithDeps d (if expandable d then Some deps else None))"
  by (simp add: attach_def)

lemma deepCollect_one_level:
  assumes "\<forall>d \<in> snd ` set m. expandable d \<longrightarrow> id_str d = idB"
    and "analyzeImports E idB filter_fn = Inr depsB"
    and "\<not> (\<exists>i \<in> set (map snd depsB). id_str i \<in> set parentIds)"
    and "deepCollect depth E filter_fn (map leaf depsB) (parentIds @ [idB]) = Some (Inr r)"
  shows "deepCollect (Suc depth) E filter_fn (map leaf m) parentIds = Some (Inr (map (attach r) m))"
  using assms(1)
proof (induction m)
  case Nil
  then show ?case by simp
next
  case (Cons kd m)
  obtain k d where kd: "kd = (k, d)" by (cases kd)
  have rest: "deepCollect (Suc depth) E filter_fn (map leaf m) parentIds = Some (Inr (map (attach r) m))"
    by (rule Cons.IH) (use Cons.prems in simp)
  show ?case
  proof (cases "expandable d")
    case False
    then have keep: "\<not> expandable (info (ImportMapWithDeps d None)) \<or>
           (\<exists>inner. analyzeImports E (id_str (info (ImportMapWithDeps d None))) filter_fn = Inr inner \<and>
                    (\<exists>i \<in> set (map snd inner). id_str i \<in> set parentIds))"
      by simp
    have "deepCollect (Suc depth) E filter_fn ((k, ImportMapWithDeps d None) # map leaf m) parentIds
       = Some (Inr ((k, ImportMapWithDeps d None) # map (attach r) m))"
      by (subst deepCollect_keep [OF keep]) (simp only: rest option.case sum.case)
    then show ?thesis
      by (simp add: kd leaf_pair attach_pair False del: deepCollect.simps)
  next
    case True
    then have idB: "id_str d = idB"
      using Cons.prems by (simp add: kd)
    have e: "expandable (info (ImportMapWithDeps d None))"
      using True by simp
    have a: "analyzeImports E (id_str (info (ImportMapWithDeps d None))) filter_fn = Inr depsB"
      using assms(2) idB by simp
    have c: "deepCollect depth E filter_fn (map leaf depsB)
               (parentIds @ [id_str (info (ImportMapWithDeps d None))]) = Some (Inr r)"
      using assms(4) idB by simp
    have "deepCollect (Suc depth) E filter_fn ((k, ImportMapWithDeps d None) # map leaf m) parentIds
       = Some (Inr ((k, ImportMapWithDeps (info (ImportMapWithDeps d None)) (Some r)) # map (attach r) m))"
      by (subst deepCollect_expand [OF e a assms(3) c]) (simp only: rest option.case sum.case)
    then show ?thesis
      by (simp add: kd leaf_pair attach_pair True del: deepCollect.simps)
  qed
qed

text \<open>
  The depth allowed only decides whether a result is reached: a result reached at one
  depth is the result at every greater depth.
\<close>

lemma deepCollect_throw:
  assumes "expandable (info dep)"
    and "analyzeImports E (id_str (info dep)) filter_fn = Inl err"
  shows "deepCollect depth E filter_fn ((key, dep) # rest) parentIds = Some (Inl err)"
proof -
  have c: "isRelative (source (info dep)) \<and> \<not> endsWith (id_str (info dep)) ''.json''"
    using assms(1) by (simp add: expandable_def)
  show ?thesis
    using c assms(2) by simp
qed

lemma deepCollect_step:
  assumes "expandable (info dep)"
    and "analyzeImports E (id_str (info dep)) filter_fn = Inr inner"
    and "\<not> (\<exists>i \<in> set (map snd inner). id_str i \<in> set parentIds)"
  shows "deepCollect depth E filter_fn ((key, dep) # rest) parentIds =
           (case depth of
              0 \<Rightarrow> None
            | Suc d \<Rightarrow>
                (case deepCollect d E filter_fn (map leaf inner) (parentIds @ [id_str (info dep)]) of
                   None \<Rightarrow> None
                 | Some (Inl err) \<Rightarrow> Some (Inl err)
                 | Some (Inr deps) \<Rightarrow>
                     (case deepCollect depth E filter_fn rest parentIds of
                        None \<Rightarrow> None
                      | Some (Inl err) \<Rightarrow> Some (Inl err)
                      | Some (Inr rest') \<Rightarrow>
                          Some (Inr ((key, ImportMapWithDeps (info dep) (Some deps)) # rest')))))"
proof -
  have c: "isRelative (source (info dep)) \<and> \<not> endsWith (id_str (info dep)) ''.json''"
    using assms(1) by (simp add: expandable_def)
  show ?thesis
    using c assms(2,3) by (simp split: nat.splits option.splits sum.splits)
qed

lemma deepCollect_deeper:
  "deepCollect depth E filter_fn lastDeps parentIds = Some r \<Longrightarrow>
   deepCollect (Suc depth) E filter_fn lastDeps parentIds = Some r"
proof (induction depth arbitrary: lastDeps parentIds r)
  case 0
  then show ?case
  proof (induction lastDeps arbitrary: r)
    case Nil
    then show ?case by simp
  next
    case (Cons kd rest)
    obtain key dep where kd: "kd = (key, dep)" by (cases kd)
    consider (keep) "\<not> expandable (info dep) \<or>
           (\<exists>inner. analyzeImports E (id_str (info dep)) filter_fn = Inr inner \<and>
                    (\<exists>i \<in> set (map snd inner). id_str i \<in> set parentIds))"
      | (throw) err where "expandable (info dep)" "analyzeImports E (id_str (info dep)) filter_fn = Inl err"
      | (step) inner where "expandable (info dep)" "analyzeImports E (id_str (info dep)) filter_fn = Inr inner"
          "\<not> (\<exists>i \<in> set (map snd inner). id_str i \<in> set parentIds)"
      by (cases "analyzeImports E (id_str (info dep)) filter_fn") blast+
    then show ?case
    proof cases
      case keep
      show ?thesis
        using Cons.prems Cons.IH
        unfolding kd deepCollect_keep [OF keep]
        by (auto split: option.splits sum.splits)
    next
      case throw
      show ?thesis
        using Cons.prems unfolding kd deepCollect_throw [OF throw] .
    next
      case step
      show ?thesis
        using Cons.prems unfolding kd deepCollect_step [OF step] by simp
    qed
  qed
next
  case (Suc d)
  from Suc.prems show ?case
  proof (induction lastDeps arbitrary: r)
    case Nil
    then show ?case by simp
  next
    case (Cons kd rest)
    obtain key dep where kd: "kd = (key, dep)" by (cases kd)
    consider (keep) "\<not> expandable (info dep) \<or>
           (\<exists>inner. analyzeImports E (id_str (info dep)) filter_fn = Inr inner \<and>
                    (\<exists>i \<in> set (map snd inner). id_str i \<in> set parentIds))"
      | (throw) err where "expandable (info dep)" "analyzeImports E (id_str (info dep)) filter_fn = Inl err"
      | (step) inner where "expandable (info dep)" "analyzeImports E (id_str (info dep)) filter_fn = Inr inner"
          "\<not> (\<exists>i \<in> set (map snd inner). id_str i \<in> set parentIds)"
      by (cases "analyzeImports E (id_str (info dep)) filter_fn") blast+
    then show ?case
    proof cases
      case keep
      show ?thesis
        using Cons.prems Cons.IH
        unfolding kd deepCollect_keep [OF keep]
        by (auto split: option.splits sum.splits)
    next
      case throw
      show ?thesis
        using Cons.prems unfolding kd deepCollect_throw [OF throw] .
    next
      case step
      let ?inner = "\<lambda>n. deepCollect n E filter_fn (map leaf inner) (parentIds @ [id_str (info dep)])"
      from Cons.prems obtain x where x: "?inner d = Some x"
        unfolding kd deepCollect_step [OF step] by (auto split: option.splits)
      have x': "?inner (Suc d) = Some x"
        by (rule Suc.IH [OF x])
      show ?thesis
      proof (cases x)
        case (Inl err)
        then show ?thesis
          using Cons.prems x x' unfolding kd deepCollect_step [OF step] by auto
      next
        case (Inr deps)
        from Cons.prems obtain y where y: "deepCollect (Suc d) E filter_fn rest parentIds = Some y"
          unfolding kd deepCollect_step [OF step] using x Inr by (auto split: option.splits)
        have y': "deepCollect (Suc (Suc d)) E filter_fn rest parentIds = Some y"
          by (rule Cons.IH [OF y])
        show ?thesis
          using Cons.prems x x' y y' Inr unfolding kd deepCollect_step [OF step] by auto
      qed
    qed
  qed
qed

lemma analyzeDependencies_deeper:
  "analyzeDependencies depth E filePath filter_fn = Some r \<Longrightarrow>
   analyzeDependencies (depth + k) E filePath filter_fn = Some r"
proof (induction k)
  case 0
  then show ?case by simp
next
  case (Suc k)
  have step: "\<And>d x. analyzeDependencies_body d E filePath filter_fn = Some x \<Longrightarrow>
      analyzeDependencies_body (Suc d) E filePath filter_fn = Some x"
    unfolding analyzeDependencies_body_def
    by (cases "analyzeImports E filePath filter_fn") (simp_all add: deepCollect_deeper del: deepCollect.simps)
  from Suc have "analyzeDependencies (depth + k) E filePath filter_fn = Some r"
    by simp
  then show ?case
    using step [of "depth + k"]
    by (auto simp: analyzeDependencies_def split: option.splits sum.splits)
qed

lemma cycle_A_ts: "analyzeImports cycleEnv ''/p/A.ts'' None =
    Inr [(''b'', \<lparr>id_str = ''/p/B'', source = ''./B'', importKind = Some ValueImport,
                  exportName = Some ''default''\<rparr>)]"
  by (simp add: cycleEnv_def eval_defs)

lemma cycle_A: "analyzeImports cycleEnv ''/p/A'' None =
    Inr [(''b'', \<lparr>id_str = ''/p/B'', source = ''./B'', importKind = Some ValueImport,
                  exportName = Some ''default''\<rparr>)]"
  by (simp add: cycleEnv_def eval_defs)

lemma cycle_B: "analyzeImports cycleEnv ''/p/B'' None =
    Inr [(''a'', \<lparr>id_str = ''/p/A'', source = ''./A'', importKind = Some ValueImport,
                  exportName = Some ''default''\<rparr>)]"
  by (simp add: cycleEnv_def eval_defs)

lemma fail_A: "analyzeImports failEnv ''/p/A.ts'' None =
    Inr [(''b'', \<lparr>id_str = ''/p/B'', source = ''./B'', importKind = Some ValueImport,
                  exportName = Some ''default''\<rparr>),
         (''c'', \<lparr>id_str = ''/p/locked'', source = ''./locked'', importKind = Some ValueImport,
                  exportName = Some ''default''\<rparr>)]"
  by (simp add: failEnv_def eval_defs)

lemma fail_B: "analyzeImports failEnv ''/p/B'' None =
    Inr [(''react'', \<lparr>id_str = ''react'', source = ''react'', importKind = Some ValueImport,
                  exportName = Some ''default''\<rparr>)]"
  by (simp add: failEnv_def eval_defs)

lemma fail_locked: "analyzeImports failEnv ''/p/locked'' None = Inl (SystemError ''EACCES'')"
  by (simp add: failEnv_def eval_defs)

lemma clash_A: "analyzeImports clashEnv ''/p/A.ts'' None =
    Inr [(''b'', \<lparr>id_str = ''/p/B'', source = ''./B'', importKind = Some ValueImport,
                  exportName = Some ''default''\<rparr>),
         (''c'', \<lparr>id_str = ''/p/C'', source = ''./C'', importKind = Some ValueImport,
                  exportName = Some ''default''\<rparr>)]"
  by (simp add: clashEnv_def eval_defs)

lemma clash_B: "analyzeImports clashEnv ''/p/B'' None =
    Inr [(''react'', \<lparr>id_str = ''react'', source = ''react'', importKind = Some ValueImport,
                  exportName = Some ''default''\<rparr>)]"
  by (simp add: clashEnv_def eval_defs)

lemma clash_C_tree: "transformToAST clashEnv ''/p/C'' =
    Inr (Some \<lparr>importDeclarations =
                 [importDefault ''x'' ''./x'',
                  \<lparr>decl_source = ''./types'', decl_importKind = Some TypeImport,
                   specifiers = [ImportDefaultSpecifier ''x'']\<rparr>],
               scopeError = Some (TypeError ''Duplicate declaration x'')\<rparr>)"
  by (simp add: clashEnv_def transformToAST_def realPathOf_def isDirectory_def lastIndexOf_def
      slice_def replace_def startsWith_def extensions_def mkEnv_def)

lemma clash_C: "analyzeImports clashEnv ''/p/C'' filter_fn = Inl (TypeError ''Duplicate declaration x'')"
  by (simp add: analyzeImports_def clash_C_tree traverse_def)

lemma refuse_A: "analyzeImports clashEnv ''/p/A.ts'' refuseReact =
    Inr [(''b'', \<lparr>id_str = ''/p/B'', source = ''./B'', importKind = Some ValueImport,
                  exportName = Some ''default''\<rparr>),
         (''c'', \<lparr>id_str = ''/p/C'', source = ''./C'', importKind = Some ValueImport,
                  exportName = Some ''default''\<rparr>)]"
  by (simp add: clashEnv_def refuseReact_def eval_defs)

lemma refuse_B: "analyzeImports clashEnv ''/p/B'' refuseReact = Inl (Error ''react is not allowed'')"
  by (simp add: clashEnv_def refuseReact_def eval_defs)

text \<open>
  A graph that \<^verbatim>\<open>deepCollect\<close> returns is the whole graph below the mapping it was
  given: the depth allowed decides whether it returns, not what.
\<close>

lemma guard_list_ex:
  "(\<exists>i \<in> set (map snd inner). id_str i \<in> set parentIds) =
     list_ex (\<lambda>i. id_str (snd i) \<in> set parentIds) inner"
  by (auto simp: list_ex_iff)

lemma deepCollect_whole_level:
  assumes lower: "\<And>n inner ids sub. depth = Suc n \<Longrightarrow>
      deepCollect n E filter_fn (map leaf inner) ids = Some (Inr sub) \<Longrightarrow>
      wholeGraph E filter_fn ids inner sub"
  shows "deepCollect depth E filter_fn (map leaf deps) parentIds = Some (Inr g) \<Longrightarrow>
         wholeGraph E filter_fn parentIds deps g"
proof (induction deps arbitrary: g)
  case Nil
  then show ?case by (simp add: wholeGraph.Done)
next
  case (Cons kd rest)
  obtain k d where kd: "kd = (k, d)" by (cases kd)
  let ?dep = "ImportMapWithDeps d None"
  have lp: "map leaf (kd # rest) = (k, ?dep) # map leaf rest"
    by (simp add: kd leaf_pair)
  have run: "deepCollect depth E filter_fn ((k, ?dep) # map leaf rest) parentIds = Some (Inr g)"
    using Cons.prems unfolding lp .
  consider (keep) "\<not> expandable (info ?dep) \<or>
         (\<exists>inner. analyzeImports E (id_str (info ?dep)) filter_fn = Inr inner \<and>
                  (\<exists>i \<in> set (map snd inner). id_str i \<in> set parentIds))"
    | (throw) err where "expandable (info ?dep)" "analyzeImports E (id_str (info ?dep)) filter_fn = Inl err"
    | (step) inner where "expandable (info ?dep)" "analyzeImports E (id_str (info ?dep)) filter_fn = Inr inner"
        "\<not> (\<exists>i \<in> set (map snd inner). id_str i \<in> set parentIds)"
    by (cases "analyzeImports E (id_str (info ?dep)) filter_fn") blast+
  then show ?case
  proof cases
    case keep
    from run obtain rest' where
      r: "deepCollect depth E filter_fn (map leaf rest) parentIds = Some (Inr rest')" and
      g: "g = (k, ?dep) # rest'"
      unfolding deepCollect_keep [OF keep] by (auto split: option.splits sum.splits)
    have w: "wholeGraph E filter_fn parentIds rest rest'"
      by (rule Cons.IH [OF r])
    show ?thesis
    proof (cases "expandable d")
      case False
      show ?thesis
        unfolding kd g by (rule wholeGraph.Leaf [OF False w])
    next
      case True
      with keep obtain inner where
        a: "analyzeImports E (id_str d) filter_fn = Inr inner" and
        c0: "\<exists>i \<in> set (map snd inner). id_str i \<in> set parentIds"
        by auto
      have c: "list_ex (\<lambda>i. id_str (snd i) \<in> set parentIds) inner"
        using c0 unfolding guard_list_ex .
      show ?thesis
        unfolding kd g by (rule wholeGraph.Cut [OF True a c w])
    qed
  next
    case throw
    show ?thesis
      using run unfolding deepCollect_throw [OF throw] by simp
  next
    case step
    show ?thesis
    proof (cases depth)
      case 0
      show ?thesis
        using run unfolding deepCollect_step [OF step] by (simp add: 0)
    next
      case (Suc n)
      from run obtain sub rest' where
        s: "deepCollect n E filter_fn (map leaf inner) (parentIds @ [id_str d]) = Some (Inr sub)" and
        r: "deepCollect depth E filter_fn (map leaf rest) parentIds = Some (Inr rest')" and
        g: "g = (k, ImportMapWithDeps d (Some sub)) # rest'"
        unfolding deepCollect_step [OF step] by (auto simp: Suc split: option.splits sum.splits)
      have e: "expandable d" and a: "analyzeImports E (id_str d) filter_fn = Inr inner"
        using step by simp_all
      have c: "\<not> list_ex (\<lambda>i. id_str (snd i) \<in> set parentIds) inner"
        using step(3) unfolding guard_list_ex .
      have w1: "wholeGraph E filter_fn (parentIds @ [id_str d]) inner sub"
        by (rule lower [OF Suc s])
      have w2: "wholeGraph E filter_fn parentIds rest rest'"
        by (rule Cons.IH [OF r])
      show ?thesis
        unfolding kd g by (rule wholeGraph.Follow [OF e a c w1 w2])
    qed
  qed
qed

lemma deepCollect_whole:
  "deepCollect depth E filter_fn (map leaf deps) parentIds = Some (Inr g) \<Longrightarrow>
   wholeGraph E filter_fn parentIds deps g"
proof (induction depth arbitrary: deps parentIds g)
  case 0
  show ?case
    by (rule deepCollect_whole_level [OF _ "0.prems"]) simp
next
  case (Suc depth)
  show ?case
    by (rule deepCollect_whole_level [OF _ Suc.prems]) (simp add: Suc.IH)
qed

text \<open>The whole graph below a mapping is one graph.\<close>

lemma wholeGraph_unique:
  "wholeGraph E filter_fn parentIds deps g \<Longrightarrow> wholeGraph E filter_fn parentIds deps g' \<Longrightarrow> g = g'"
proof (induction arbitrary: g' rule: wholeGraph.induct)
  case (Done parentIds)
  then show ?case by (auto elim: wholeGraph.cases)
next
  case (Leaf d parentIds rest g k)
  from Leaf.prems Leaf.hyps(1) show ?case
    by (cases rule: wholeGraph.cases) (auto dest: Leaf.IH)
next
  case (Cut d inner parentIds rest g k)
  from Cut.prems Cut.hyps(1,2,3) show ?case
    by (cases rule: wholeGraph.cases) (auto dest: Cut.IH)
next
  case (Follow d inner parentIds sub rest g k)
  from Follow.prems Follow.hyps(1,2,3) show ?case
    by (cases rule: wholeGraph.cases) (auto dest: Follow.IH)
qed

text \<open>
  Claim C2, as amended. Let every import of \<open>fileA\<close> that is followed lead to \<open>idB\<close>.
  If an import of \<open>idB\<close> carries the root path \<open>fileA\<close> itself as its id, the guard cuts
  \<open>idB\<close> off: the graph is the direct mapping of \<open>fileA\<close> with every entry a leaf, at
  every depth allowed. If the imports of \<open>idB\<close> lead to \<open>idA\<close>, another name of the
  root file (the root was given with its suffix, the import without), the entries for
  \<open>idB\<close> get the mapping of \<open>idB\<close> attached, and there the entries for \<open>idA\<close> are the
  leaves; one level of depth is enough. The build ends in both cases.
\<close>

theorem mutual_cycle_terminates:
  assumes A: "analyzeImports E fileA filter_fn = Inr depsA"
    and AB: "\<forall>d \<in> snd ` set depsA. expandable d \<longrightarrow> id_str d = idB"
    and B: "analyzeImports E idB filter_fn = Inr depsB"
  shows "((\<exists>d \<in> snd ` set depsB. id_str d = fileA) \<longrightarrow>
            analyzeDependencies depth E fileA filter_fn = Some (Inr (map leaf depsA))) \<and>
         ((\<forall>d \<in> snd ` set depsB. id_str d \<noteq> fileA) \<and>
          (\<forall>d \<in> snd ` set depsB. expandable d \<longrightarrow> id_str d = idA) \<and>
          analyzeImports E idA filter_fn = Inr depsA' \<and>
          (\<exists>d \<in> snd ` set depsA'. id_str d = idB) \<longrightarrow>
            analyzeDependencies (Suc depth) E fileA filter_fn =
              Some (Inr (map (attach (map leaf depsB)) depsA)))"
proof (intro conjI impI)
  assume toRoot: "\<exists>d \<in> snd ` set depsB. id_str d = fileA"
  have "\<forall>d \<in> snd ` set depsA. expandable d \<longrightarrow>
          (\<exists>inner. analyzeImports E (id_str d) filter_fn = Inr inner \<and>
                   (\<exists>i \<in> set (map snd inner). id_str i \<in> set [fileA]))"
    using AB B toRoot by auto
  then have "deepCollect depth E filter_fn (map leaf depsA) [fileA] = Some (Inr (map leaf depsA))"
    by (rule deepCollect_all_leaves)
  then show "analyzeDependencies depth E fileA filter_fn = Some (Inr (map leaf depsA))"
    by (simp add: analyzeDependencies_def analyzeDependencies_body_def A)
next
  assume h: "(\<forall>d \<in> snd ` set depsB. id_str d \<noteq> fileA) \<and>
          (\<forall>d \<in> snd ` set depsB. expandable d \<longrightarrow> id_str d = idA) \<and>
          analyzeImports E idA filter_fn = Inr depsA' \<and>
          (\<exists>d \<in> snd ` set depsA'. id_str d = idB)"
  have noguard: "\<not> (\<exists>i \<in> set (map snd depsB). id_str i \<in> set [fileA])"
    using h by auto
  have "\<forall>d \<in> snd ` set depsB. expandable d \<longrightarrow>
          (\<exists>inner. analyzeImports E (id_str d) filter_fn = Inr inner \<and>
                   (\<exists>i \<in> set (map snd inner). id_str i \<in> set ([fileA] @ [idB])))"
    using h by auto
  then have inner: "deepCollect depth E filter_fn (map leaf depsB) ([fileA] @ [idB]) =
      Some (Inr (map leaf depsB))"
    by (rule deepCollect_all_leaves)
  have "deepCollect (Suc depth) E filter_fn (map leaf depsA) [fileA] =
      Some (Inr (map (attach (map leaf depsB)) depsA))"
    by (rule deepCollect_one_level [OF AB B noguard inner])
  then show "analyzeDependencies (Suc depth) E fileA filter_fn =
      Some (Inr (map (attach (map leaf depsB)) depsA))"
    by (simp add: analyzeDependencies_def analyzeDependencies_body_def A del: deepCollect.simps)
qed

theorem mutual_cycle_terminates_witness:
  "analyzeDependencies 0 cycleEnv ''/p/A'' None =
     Some (Inr [(''b'', ImportMapWithDeps
                  \<lparr>id_str = ''/p/B'', source = ''./B'', importKind = Some ValueImport,
                   exportName = Some ''default''\<rparr> None)]) \<and>
   analyzeDependencies (Suc 0) cycleEnv ''/p/A.ts'' None =
     Some (Inr [(''b'', ImportMapWithDeps
                  \<lparr>id_str = ''/p/B'', source = ''./B'', importKind = Some ValueImport,
                   exportName = Some ''default''\<rparr>
                  (Some [(''a'', ImportMapWithDeps
                            \<lparr>id_str = ''/p/A'', source = ''./A'', importKind = Some ValueImport,
                             exportName = Some ''default''\<rparr>
                            None)]))])"
proof -
  let ?b = "\<lparr>id_str = ''/p/B'', source = ''./B'', importKind = Some ValueImport,
             exportName = Some ''default''\<rparr>"
  let ?a = "\<lparr>id_str = ''/p/A'', source = ''./A'', importKind = Some ValueImport,
             exportName = Some ''default''\<rparr>"
  have eb: "expandable ?b" and ea: "expandable ?a"
    by (simp_all add: expandable_def isRelative_def startsWith_def endsWith_def)
  have AB: "\<forall>d \<in> snd ` set [(''b'', ?b)]. expandable d \<longrightarrow> id_str d = ''/p/B''"
    by simp
  have toRoot: "\<exists>d \<in> snd ` set [(''a'', ?a)]. id_str d = ''/p/A''"
    by simp
  have 1: "analyzeDependencies 0 cycleEnv ''/p/A'' None = Some (Inr (map leaf [(''b'', ?b)]))"
    using mutual_cycle_terminates [OF cycle_A AB cycle_B, where depth = 0] toRoot by blast
  have other: "(\<forall>d \<in> snd ` set [(''a'', ?a)]. id_str d \<noteq> ''/p/A.ts'') \<and>
          (\<forall>d \<in> snd ` set [(''a'', ?a)]. expandable d \<longrightarrow> id_str d = ''/p/A'') \<and>
          analyzeImports cycleEnv ''/p/A'' None = Inr [(''b'', ?b)] \<and>
          (\<exists>d \<in> snd ` set [(''b'', ?b)]. id_str d = ''/p/B'')"
    using cycle_A by simp
  have 2: "analyzeDependencies (Suc 0) cycleEnv ''/p/A.ts'' None =
      Some (Inr (map (attach (map leaf [(''a'', ?a)])) [(''b'', ?b)]))"
    using mutual_cycle_terminates [OF cycle_A_ts AB cycle_B,
        where depth = 0 and idA = "''/p/A''" and depsA' = "[(''b'', ?b)]"] other
    by blast
  show ?thesis
    using 1 2 eb by (simp add: leaf_pair attach_pair)
qed

text \<open>
  Claim C2 as it was stated fails for the root \<^verbatim>\<open>/p/A.ts\<close>: the files \<^verbatim>\<open>/p/A.ts\<close> and
  \<^verbatim>\<open>/p/B.ts\<close> import each other, \<^verbatim>\<open>B\<close> by the specifier \<^verbatim>\<open>./A\<close>, whose id \<^verbatim>\<open>/p/A\<close> is
  not the root path in the ancestor list, so the entry for \<^verbatim>\<open>B\<close> is not a leaf: it
  carries the mapping of \<^verbatim>\<open>B\<close>, in which the entry for \<^verbatim>\<open>A\<close> is the leaf.
\<close>

theorem mutual_cycle_root_with_extension:
  "realPathOf cycleEnv ''/p/A.ts'' = Inr ''/p/A.ts'' \<and>
   realPathOf cycleEnv ''/p/B'' = Inr ''/p/B.ts'' \<and>
   realPathOf cycleEnv ''/p/A'' = Inr ''/p/A.ts'' \<and>
   analyzeImports cycleEnv ''/p/A.ts'' None =
     Inr [(''b'', \<lparr>id_str = ''/p/B'', source = ''./B'', importKind = Some ValueImport,
                   exportName = Some ''default''\<rparr>)] \<and>
   analyzeImports cycleEnv ''/p/B'' None =
     Inr [(''a'', \<lparr>id_str = ''/p/A'', source = ''./A'', importKind = Some ValueImport,
                   exportName = Some ''default''\<rparr>)] \<and>
   analyzeDependencies 5 cycleEnv ''/p/A.ts'' None =
     Some (Inr [(''b'', ImportMapWithDeps
                  \<lparr>id_str = ''/p/B'', source = ''./B'', importKind = Some ValueImport,
                   exportName = Some ''default''\<rparr>
                  (Some [(''a'', ImportMapWithDeps
                            \<lparr>id_str = ''/p/A'', source = ''./A'', importKind = Some ValueImport,
                             exportName = Some ''default''\<rparr>
                            None)]))])"
proof -
  have files: "realPathOf cycleEnv ''/p/A.ts'' = Inr ''/p/A.ts''"
    "realPathOf cycleEnv ''/p/B'' = Inr ''/p/B.ts''"
    "realPathOf cycleEnv ''/p/A'' = Inr ''/p/A.ts''"
    by (simp_all add: cycleEnv_def eval_defs)
  have graph: "analyzeDependencies 5 cycleEnv ''/p/A.ts'' None =
     Some (Inr [(''b'', ImportMapWithDeps
                  \<lparr>id_str = ''/p/B'', source = ''./B'', importKind = Some ValueImport,
                   exportName = Some ''default''\<rparr>
                  (Some [(''a'', ImportMapWithDeps
                            \<lparr>id_str = ''/p/A'', source = ''./A'', importKind = Some ValueImport,
                             exportName = Some ''default''\<rparr>
                            None)]))])"
    by (simp add: analyzeDependencies_def analyzeDependencies_body_def cycle_A_ts cycle_A cycle_B
        leaf_def isRelative_def startsWith_def endsWith_def numeral_eq_Suc)
  from files cycle_A_ts cycle_B graph show ?thesis
    by blast
qed

text \<open>
  Claim C1. \<^verbatim>\<open>analyzeDependencies\<close> never throws. When the body of its \<^verbatim>\<open>try\<close> throws,
  the result is the empty mapping, with nothing of the graph built so far; what is
  thrown there comes from a call of \<^verbatim>\<open>analyzeImports\<close>, and is the error of listing a
  directory, the error of traversing a tree that the parser returned, or what the
  filter threw for a source of such a tree (errors of reading and of parsing stay
  inside \<^verbatim>\<open>transformToAST\<close>). A mapping that is returned is the whole graph below the
  imports of the root file, or it is the empty mapping of a body that threw.
\<close>

theorem analyzeDependencies_never_throws:
  "analyzeDependencies depth E filePath filter_fn \<noteq> Some (Inl err) \<and>
   (analyzeDependencies_body depth E filePath filter_fn = Some (Inl err) \<longrightarrow>
      analyzeDependencies depth E filePath filter_fn = Some (Inr []) \<and>
      (\<exists>p. analyzeImports E p filter_fn = Inl err \<and>
           ((isDirectory E p \<and> readdirSync E p = Inl err) \<or>
            (\<exists>ast. transformToAST E p = Inr (Some ast) \<and>
                   (scopeError ast = Some err \<or>
                    (\<exists>d \<in> set (importDeclarations ast).
                       \<not> isRelative (decl_source d) \<and>
                       filterThrows filter_fn (decl_source d) err)))))) \<and>
   (analyzeImports E filePath filter_fn = Inl err \<longrightarrow>
      analyzeDependencies depth E filePath filter_fn = Some (Inr [])) \<and>
   (analyzeDependencies depth E filePath filter_fn = Some (Inr g) \<longrightarrow>
      (\<exists>deps. analyzeImports E filePath filter_fn = Inr deps \<and>
              analyzeDependencies_body depth E filePath filter_fn = Some (Inr g) \<and>
              wholeGraph E filter_fn [filePath] deps g) \<or>
      (g = [] \<and> (\<exists>e. analyzeDependencies_body depth E filePath filter_fn = Some (Inl e))))"
proof (intro conjI impI)
  show "analyzeDependencies depth E filePath filter_fn \<noteq> Some (Inl err)"
    by (simp add: analyzeDependencies_def split: option.splits sum.splits)
next
  assume "analyzeDependencies_body depth E filePath filter_fn = Some (Inl err)"
  then show "analyzeDependencies depth E filePath filter_fn = Some (Inr [])"
    by (simp add: analyzeDependencies_def)
next
  assume thrown: "analyzeDependencies_body depth E filePath filter_fn = Some (Inl err)"
  have "\<exists>p. analyzeImports E p filter_fn = Inl err"
  proof (cases "analyzeImports E filePath filter_fn")
    case (Inl e)
    then show ?thesis
      using thrown by (auto simp: analyzeDependencies_body_def)
  next
    case (Inr deps)
    then have "deepCollect depth E filter_fn (map leaf deps) [filePath] = Some (Inl err)"
      using thrown by (simp add: analyzeDependencies_body_def)
    then show ?thesis
      by (rule deepCollect_throws)
  qed
  then obtain p where p: "analyzeImports E p filter_fn = Inl err"
    by blast
  show "\<exists>p. analyzeImports E p filter_fn = Inl err \<and>
           ((isDirectory E p \<and> readdirSync E p = Inl err) \<or>
            (\<exists>ast. transformToAST E p = Inr (Some ast) \<and>
                   (scopeError ast = Some err \<or>
                    (\<exists>d \<in> set (importDeclarations ast).
                       \<not> isRelative (decl_source d) \<and>
                       filterThrows filter_fn (decl_source d) err))))"
    by (rule exI [of _ p]) (rule conjI [OF p analyzeImports_throws [OF p]])
next
  assume "analyzeImports E filePath filter_fn = Inl err"
  then show "analyzeDependencies depth E filePath filter_fn = Some (Inr [])"
    by (simp add: analyzeDependencies_def analyzeDependencies_body_def)
next
  assume ret: "analyzeDependencies depth E filePath filter_fn = Some (Inr g)"
  show "(\<exists>deps. analyzeImports E filePath filter_fn = Inr deps \<and>
              analyzeDependencies_body depth E filePath filter_fn = Some (Inr g) \<and>
              wholeGraph E filter_fn [filePath] deps g) \<or>
      (g = [] \<and> (\<exists>e. analyzeDependencies_body depth E filePath filter_fn = Some (Inl e)))"
  proof (cases "analyzeDependencies_body depth E filePath filter_fn")
    case None
    then show ?thesis
      using ret by (simp add: analyzeDependencies_def)
  next
    case (Some r)
    show ?thesis
    proof (cases r)
      case (Inl e)
      then show ?thesis
        using ret Some by (simp add: analyzeDependencies_def)
    next
      case (Inr built)
      then have g: "built = g"
        using ret Some by (simp add: analyzeDependencies_def)
      show ?thesis
      proof (cases "analyzeImports E filePath filter_fn")
        case failed: (Inl e)
        then show ?thesis
          using Some Inr by (simp add: analyzeDependencies_body_def)
      next
        case deps: (Inr deps)
        then have "deepCollect depth E filter_fn (map leaf deps) [filePath] = Some (Inr g)"
          using Some Inr g by (simp add: analyzeDependencies_body_def)
        then have "wholeGraph E filter_fn [filePath] deps g"
          by (rule deepCollect_whole)
        then show ?thesis
          using deps Some Inr g by blast
      qed
    qed
  qed
qed

theorem analyzeDependencies_never_throws_witness:
  "deepCollect 3 failEnv None
     [(''b'', ImportMapWithDeps \<lparr>id_str = ''/p/B'', source = ''./B'', importKind = Some ValueImport,
                exportName = Some ''default''\<rparr> None)] [''/p/A.ts''] =
     Some (Inr [(''b'', ImportMapWithDeps
                  \<lparr>id_str = ''/p/B'', source = ''./B'', importKind = Some ValueImport,
                   exportName = Some ''default''\<rparr>
                  (Some [(''react'', ImportMapWithDeps
                            \<lparr>id_str = ''react'', source = ''react'', importKind = Some ValueImport,
                             exportName = Some ''default''\<rparr> None)]))]) \<and>
   analyzeDependencies_body 3 failEnv ''/p/A.ts'' None = Some (Inl (SystemError ''EACCES'')) \<and>
   analyzeDependencies 3 failEnv ''/p/A.ts'' None = Some (Inr []) \<and>
   analyzeDependencies_body 3 clashEnv ''/p/A.ts'' None =
     Some (Inl (TypeError ''Duplicate declaration x'')) \<and>
   analyzeDependencies 3 clashEnv ''/p/A.ts'' None = Some (Inr []) \<and>
   analyzeImports clashEnv ''/p/C'' None = Inl (TypeError ''Duplicate declaration x'') \<and>
   analyzeDependencies 3 clashEnv ''/p/C'' None = Some (Inr []) \<and>
   analyzeDependencies_body 3 clashEnv ''/p/A.ts'' refuseReact =
     Some (Inl (Error ''react is not allowed'')) \<and>
   analyzeDependencies 3 clashEnv ''/p/A.ts'' refuseReact = Some (Inr []) \<and>
   analyzeDependencies (Suc 0) filterEnv ''/proj/entry.ts'' None =
     Some (Inr [(''a'', ImportMapWithDeps
                   \<lparr>id_str = ''/proj/a'', source = ''./a'', importKind = Some ValueImport,
                    exportName = Some ''default''\<rparr> (Some [])),
                (''lodash'', ImportMapWithDeps
                   \<lparr>id_str = ''lodash'', source = ''lodash'', importKind = Some ValueImport,
                    exportName = Some ''default''\<rparr> None)]) \<and>
   wholeGraph filterEnv None [''/proj/entry.ts'']
     [(''a'', \<lparr>id_str = ''/proj/a'', source = ''./a'', importKind = Some ValueImport,
              exportName = Some ''default''\<rparr>),
      (''lodash'', \<lparr>id_str = ''lodash'', source = ''lodash'', importKind = Some ValueImport,
              exportName = Some ''default''\<rparr>)]
     [(''a'', ImportMapWithDeps
         \<lparr>id_str = ''/proj/a'', source = ''./a'', importKind = Some ValueImport,
          exportName = Some ''default''\<rparr> (Some [])),
      (''lodash'', ImportMapWithDeps
         \<lparr>id_str = ''lodash'', source = ''lodash'', importKind = Some ValueImport,
          exportName = Some ''default''\<rparr> None)]"
proof -
  let ?a = "\<lparr>id_str = ''/proj/a'', source = ''./a'', importKind = Some ValueImport,
             exportName = Some ''default''\<rparr>"
  let ?l = "\<lparr>id_str = ''lodash'', source = ''lodash'', importKind = Some ValueImport,
             exportName = Some ''default''\<rparr>"
  let ?g = "[(''a'', ImportMapWithDeps ?a (Some [])), (''lodash'', ImportMapWithDeps ?l None)]"
  have first: "deepCollect 3 failEnv None
     [(''b'', ImportMapWithDeps \<lparr>id_str = ''/p/B'', source = ''./B'', importKind = Some ValueImport,
                exportName = Some ''default''\<rparr> None)] [''/p/A.ts''] =
     Some (Inr [(''b'', ImportMapWithDeps
                  \<lparr>id_str = ''/p/B'', source = ''./B'', importKind = Some ValueImport,
                   exportName = Some ''default''\<rparr>
                  (Some [(''react'', ImportMapWithDeps
                            \<lparr>id_str = ''react'', source = ''react'', importKind = Some ValueImport,
                             exportName = Some ''default''\<rparr> None)]))])"
    by (simp add: fail_B leaf_def isRelative_def startsWith_def endsWith_def numeral_eq_Suc)
  have body: "analyzeDependencies_body 3 failEnv ''/p/A.ts'' None = Some (Inl (SystemError ''EACCES''))"
    by (simp add: analyzeDependencies_body_def fail_A fail_B fail_locked
        leaf_def isRelative_def startsWith_def endsWith_def numeral_eq_Suc)
  have empty: "analyzeDependencies 3 failEnv ''/p/A.ts'' None = Some (Inr [])"
    using analyzeDependencies_never_throws [of 3 failEnv "''/p/A.ts''" None "SystemError ''EACCES''"] body
    by blast
  have body2: "analyzeDependencies_body 3 clashEnv ''/p/A.ts'' None =
      Some (Inl (TypeError ''Duplicate declaration x''))"
    by (simp add: analyzeDependencies_body_def clash_A clash_B clash_C
        leaf_def isRelative_def startsWith_def endsWith_def numeral_eq_Suc)
  have empty2: "analyzeDependencies 3 clashEnv ''/p/A.ts'' None = Some (Inr [])"
    using analyzeDependencies_never_throws
      [of 3 clashEnv "''/p/A.ts''" None "TypeError ''Duplicate declaration x''"] body2
    by blast
  have empty3: "analyzeDependencies 3 clashEnv ''/p/C'' None = Some (Inr [])"
    using analyzeDependencies_never_throws
      [of 3 clashEnv "''/p/C''" None "TypeError ''Duplicate declaration x''"] clash_C [of None]
    by blast
  have body4: "analyzeDependencies_body 3 clashEnv ''/p/A.ts'' refuseReact =
      Some (Inl (Error ''react is not allowed''))"
    by (simp add: analyzeDependencies_body_def refuse_A refuse_B
        leaf_def isRelative_def startsWith_def endsWith_def numeral_eq_Suc)
  have empty4: "analyzeDependencies 3 clashEnv ''/p/A.ts'' refuseReact = Some (Inr [])"
    using analyzeDependencies_never_throws
      [of 3 clashEnv "''/p/A.ts''" refuseReact "Error ''react is not allowed''"] body4
    by blast
  have a_none: "analyzeImports filterEnv ''/proj/a'' None = Inr []"
    by (simp add: filterEnv_def eval_defs)
  have graph: "analyzeDependencies (Suc 0) filterEnv ''/proj/entry.ts'' None = Some (Inr ?g)"
    by (simp add: analyzeDependencies_def analyzeDependencies_body_def filter_entry_imports_unfiltered
        a_none leaf_def isRelative_def startsWith_def endsWith_def)
  have "(\<exists>deps. analyzeImports filterEnv ''/proj/entry.ts'' None = Inr deps \<and>
              analyzeDependencies_body (Suc 0) filterEnv ''/proj/entry.ts'' None = Some (Inr ?g) \<and>
              wholeGraph filterEnv None [''/proj/entry.ts''] deps ?g) \<or>
      (?g = [] \<and> (\<exists>e. analyzeDependencies_body (Suc 0) filterEnv ''/proj/entry.ts'' None = Some (Inl e)))"
    using analyzeDependencies_never_throws [of "Suc 0" filterEnv "''/proj/entry.ts''" None _ ?g] graph
    by blast
  then have whole: "wholeGraph filterEnv None [''/proj/entry.ts''] [(''a'', ?a), (''lodash'', ?l)] ?g"
    by (simp add: filter_entry_imports_unfiltered)
  from first body empty body2 empty2 clash_C [of None] empty3 body4 empty4 graph whole show ?thesis
    by blast
qed

section \<open>Filtered imports in the graph\<close>







end
